theory Spec2Isabelle
  imports Main "HOL-Library.Word" "HOL-Library.Multiset"
begin

section \<open>Strings\<close>

text \<open>
  A JavaScript string is a sequence of UTF-16 code units; \<open>s.length\<close> counts them and the
  regular expressions of \<open>static/js/main.js\<close> (no \<open>u\<close> flag) work on them one by one.
  \<open>str\<close> embeds the ASCII literals of the source.
\<close>

type_synonym code_unit = "16 word"
type_synonym js_string = "code_unit list"

definition str :: "string \<Rightarrow> js_string" where
  "str s = map of_char s"

text \<open>The class \<open>\d\<close> is \<open>[0-9]\<close>; \<open>\D\<close> is its complement.\<close>

definition is_digit :: "code_unit \<Rightarrow> bool" where
  "is_digit u = (0x30 \<le> u \<and> u \<le> 0x39)"

text \<open>
  \<open>length + '/'\<close> converts a number to a string. For the non-negative integers below
  \<open>10^21\<close> (every string length is below \<open>2^53\<close>) that is the decimal numeral without
  leading zeros.
\<close>

definition digit_unit :: "nat \<Rightarrow> code_unit" where
  "digit_unit d = of_nat (48 + d)"

fun digits_of :: "nat \<Rightarrow> js_string" where
  "digits_of n = (if n < 10 then [digit_unit n] else digits_of (n div 10) @ [digit_unit (n mod 10)])"

declare digits_of.simps [simp del]

text \<open>
  \<open>length > maxLength\<close> compares a number with the attribute string, which the language
  converts with ToNumber. The conversion is modelled on the strings that are one or more
  decimal digits, where it is the value of the numeral; the comparison with a string length
  (an integer below \<open>2^53\<close>) is then exact, since rounding a larger numeral to a double is
  monotone and \<open>2^53\<close> is a double. Every other string (signs, white space, fractions,
  exponents, radix prefixes, \<open>Infinity\<close>, and the strings that convert to NaN) is left out
  of the model: the value \<open>None\<close>.
\<close>

definition digit_value :: "code_unit \<Rightarrow> nat" where
  "digit_value u = unat u - 48"

definition decimal_value :: "js_string \<Rightarrow> nat" where
  "decimal_value s = foldl (\<lambda>a u. 10 * a + digit_value u) 0 s"

definition to_number :: "js_string \<Rightarrow> nat option" where
  "to_number s = (if s \<noteq> [] \<and> list_all is_digit s then Some (decimal_value s) else None)"

definition number_gt_string :: "nat \<Rightarrow> js_string \<Rightarrow> bool option" where
  "number_gt_string n s = map_option (\<lambda>m. m < n) (to_number s)"


section \<open>Elements\<close>

text \<open>
  The part of a DOM element that the handlers read and write through a reference: its
  attributes, its class tokens (\<open>classList\<close>, an ordered set), its content as
  \<open>textContent\<close> and as \<open>innerHTML\<close>, and the \<open>disabled\<close> flag. A handler uses one view
  of the content only, so the two are kept as separate fields.
\<close>

record element =
  attributes :: "js_string \<rightharpoonup> js_string"
  classList :: "js_string list"
  textContent :: js_string
  innerHTML :: js_string
  disabled :: bool

definition getAttribute :: "element \<Rightarrow> string \<Rightarrow> js_string option" where
  "getAttribute el name = attributes el (str name)"

definition hasAttribute :: "element \<Rightarrow> string \<Rightarrow> bool" where
  "hasAttribute el name = (attributes el (str name) \<noteq> None)"

definition classList_add :: "string \<Rightarrow> element \<Rightarrow> element" where
  "classList_add c el =
     (if str c \<in> set (classList el) then el else el\<lparr>classList := classList el @ [str c]\<rparr>)"

definition classList_remove :: "string \<Rightarrow> element \<Rightarrow> element" where
  "classList_remove c el = el\<lparr>classList := filter (\<lambda>t. t \<noteq> str c) (classList el)\<rparr>"

text \<open>A string is truthy when it is not empty; \<open>null\<close> and \<open>undefined\<close> are falsy.\<close>

fun truthy :: "js_string option \<Rightarrow> bool" where
  "truthy None = False"
| "truthy (Some s) = (s \<noteq> [])"


section \<open>Form validation (lines 45-53)\<close>

record event =
  defaultPrevented :: bool
  propagationStopped :: bool

definition preventDefault :: "event \<Rightarrow> event" where
  "preventDefault e = e\<lparr>defaultPrevented := True\<rparr>"

definition stopPropagation :: "event \<Rightarrow> event" where
  "stopPropagation e = e\<lparr>propagationStopped := True\<rparr>"

text \<open>
  The submit listener of every form. \<open>checkValidity\<close> is the browser's verdict of
  constraint validation on the form, an input of the model.
\<close>

definition form_submit_handler :: "bool \<Rightarrow> element \<Rightarrow> event \<Rightarrow> element \<times> event" where
  "form_submit_handler checkValidity form e =
     (let e = (if \<not> checkValidity then stopPropagation (preventDefault e) else e)
      in (classList_add ''was-validated'' form, e))"


section \<open>Character counter (lines 56-81)\<close>

text \<open>
  The counter of a textarea is the element with id \<open>'counter-' + textarea.id\<close> when the
  document has one, and otherwise a new \<open>div\<close> with that id and the classes
  \<open>form-text text-end\<close>, appended to the textarea's parent.
\<close>

definition new_counter :: "js_string \<Rightarrow> element" where
  "new_counter counterId =
     \<lparr>attributes = [str ''id'' \<mapsto> counterId], classList = [str ''form-text'', str ''text-end''],
      textContent = [], innerHTML = [], disabled = False\<rparr>"

definition counter_of :: "js_string \<Rightarrow> (js_string \<rightharpoonup> element) \<Rightarrow> element" where
  "counter_of textarea_id getElementById =
     (let counterId = str ''counter-'' @ textarea_id in
      case getElementById counterId of
        Some counter \<Rightarrow> counter
      | None \<Rightarrow> new_counter counterId)"

text \<open>
  \<open>updateCounter\<close>, the input listener, from the textarea's value, the
  \<open>data-max-length\<close> attribute and the counter.
\<close>

definition updateCounter :: "js_string \<Rightarrow> js_string \<Rightarrow> element \<Rightarrow> element option" where
  "updateCounter textarea_value maxLength counter =
     (let length = length textarea_value;
          counter = counter\<lparr>textContent := digits_of length @ str ''/'' @ maxLength @ str '' characters''\<rparr>
      in case number_gt_string length maxLength of
           None \<Rightarrow> None
         | Some True \<Rightarrow> Some (classList_add ''text-danger'' counter)
         | Some False \<Rightarrow> Some (classList_remove ''text-danger'' counter))"


section \<open>Phone numbers (lines 84-98)\<close>

text \<open>
  The three patterns are \<open>(\d{3})(\d+)\<close>, \<open>(\d{3})(\d{3})(\d+)\<close> and
  \<open>(\d{3})(\d{3})(\d{4})(\d+)\<close>: groups of fixed width followed by a greedy \<open>\d+\<close>.
  \<open>match_groups ws s\<close> matches such a pattern with the widths \<open>ws\<close> at the start of
  \<open>s\<close> and returns the captured groups and the text after the match.
\<close>

fun match_groups :: "nat list \<Rightarrow> js_string \<Rightarrow> (js_string list \<times> js_string) option" where
  "match_groups [] s =
     (if takeWhile is_digit s = [] then None
      else Some ([takeWhile is_digit s], dropWhile is_digit s))"
| "match_groups (w # ws) s =
     (if w \<le> length s \<and> list_all is_digit (take w s)
      then (case match_groups ws (drop w s) of
              None \<Rightarrow> None
            | Some (gs, r) \<Rightarrow> Some (take w s # gs, r))
      else None)"

text \<open>The replacement patterns \<open>'$1-$2'\<close>, \<open>'$1-$2-$3'\<close>, \<open>'$1-$2-$3-$4'\<close>.\<close>

fun join_hyphen :: "js_string list \<Rightarrow> js_string" where
  "join_hyphen [] = []"
| "join_hyphen [g] = g"
| "join_hyphen (g # gs) = g @ str ''-'' @ join_hyphen gs"

text \<open>
  \<open>String.prototype.replace\<close> with a regular expression without the \<open>g\<close> flag replaces
  the leftmost match only and keeps the text around it.
\<close>

fun replace_groups :: "nat list \<Rightarrow> js_string \<Rightarrow> js_string" where
  "replace_groups ws [] = []"
| "replace_groups ws (c # cs) =
     (case match_groups ws (c # cs) of
        Some (gs, r) \<Rightarrow> join_hyphen gs @ r
      | None \<Rightarrow> c # replace_groups ws cs)"

text \<open>The groups of a string of digits for the widths \<open>ws\<close>: the reference for the matcher.\<close>

fun split_groups :: "nat list \<Rightarrow> js_string \<Rightarrow> js_string list" where
  "split_groups [] s = [s]"
| "split_groups (w # ws) s = take w s # split_groups ws (drop w s)"

text \<open>The input listener of \<open>input[type="tel"]\<close>: from \<open>this.value\<close> to the value it writes back.\<close>

definition tel_input_handler :: "js_string \<Rightarrow> js_string" where
  "tel_input_handler this_value =
     (let value = filter is_digit this_value in
      if length value > 3 \<and> length value \<le> 6 then replace_groups [3] value
      else if length value > 6 \<and> length value \<le> 10 then replace_groups [3, 3] value
      else if length value > 10 then replace_groups [3, 3, 4] value
      else value)"


section \<open>The document tree\<close>

text \<open>
  The handlers that search the document (\<open>querySelector\<close>) or insert into it work on the
  tree of nodes. An element has an identity (\<open>ref\<close>, what a JavaScript reference to it
  denotes), a tag name in lower case, its attributes in source order and its children; the
  class tokens are read from the \<open>class\<close> attribute. A position in the tree is the list of
  child indices from the root, the \<open>html\<close> element.
\<close>

datatype node =
    Element (ref: nat) (tagName: js_string) (attrs: "(js_string \<times> js_string) list")
      (childNodes: "node list")
  | Text js_string

definition node_attribute :: "node \<Rightarrow> string \<Rightarrow> js_string option" where
  "node_attribute n name =
     (case n of Element r t atts kids \<Rightarrow> map_of atts (str name) | Text s \<Rightarrow> None)"

fun is_element :: "node \<Rightarrow> bool" where
  "is_element (Element r t atts kids) = True"
| "is_element (Text s) = False"

text \<open>
  The class attribute is split at ASCII white space (tab, line feed, form feed, carriage
  return, space). \<open>tokens_from cur s\<close> reads \<open>s\<close> with \<open>cur\<close> the token begun so far.
\<close>

definition is_ascii_whitespace :: "code_unit \<Rightarrow> bool" where
  "is_ascii_whitespace u = (u = 0x09 \<or> u = 0x0A \<or> u = 0x0C \<or> u = 0x0D \<or> u = 0x20)"

fun tokens_from :: "js_string \<Rightarrow> js_string \<Rightarrow> js_string list" where
  "tokens_from cur [] = (if cur = [] then [] else [cur])"
| "tokens_from cur (u # us) =
     (if is_ascii_whitespace u
      then (if cur = [] then tokens_from [] us else cur # tokens_from [] us)
      else tokens_from (cur @ [u]) us)"

definition class_tokens :: "node \<Rightarrow> js_string list" where
  "class_tokens n =
     (case node_attribute n ''class'' of None \<Rightarrow> [] | Some c \<Rightarrow> tokens_from [] c)"

text \<open>A text that is one class token at most: it has no white space.\<close>

definition no_whitespace :: "js_string \<Rightarrow> bool" where
  "no_whitespace w = list_all (\<lambda>u. \<not> is_ascii_whitespace u) w"

text \<open>
  The two selectors that the source hands to \<open>document.querySelector\<close>:
  \<open>.container:first-of-type\<close>, an element with the class \<open>container\<close> that has no earlier
  sibling element of its own type, and \<open>a[href="v"]\<close>, an anchor whose \<open>href\<close> attribute is
  exactly \<open>v\<close>. A selector is matched against a node and the siblings that precede it.
\<close>

datatype selector = Container_first_of_type | Anchor_with_href js_string

fun same_type :: "js_string \<Rightarrow> node \<Rightarrow> bool" where
  "same_type t (Element r t' atts kids) = (t' = t)"
| "same_type t (Text s) = False"

fun matches :: "selector \<Rightarrow> node list \<Rightarrow> node \<Rightarrow> bool" where
  "matches sel preceding (Text s) = False"
| "matches Container_first_of_type preceding (Element r t atts kids) =
     (str ''container'' \<in> set (class_tokens (Element r t atts kids)) \<and>
      \<not> list_ex (same_type t) preceding)"
| "matches (Anchor_with_href v) preceding (Element r t atts kids) =
     (t = str ''a'' \<and> map_of atts (str ''href'') = Some v)"

text \<open>
  \<open>querySelector\<close> returns the first match in document order: an element comes before its
  descendants, and these before its later siblings.
\<close>

type_synonym path = "nat list"

fun find_node :: "(node list \<Rightarrow> node \<Rightarrow> bool) \<Rightarrow> node list \<Rightarrow> node \<Rightarrow> path option"
  and find_nodes :: "(node list \<Rightarrow> node \<Rightarrow> bool) \<Rightarrow> node list \<Rightarrow> nat \<Rightarrow> node list \<Rightarrow> path option"
where
  "find_node P preceding (Text s) = None"
| "find_node P preceding (Element r t atts kids) =
     (if P preceding (Element r t atts kids) then Some [] else find_nodes P [] 0 kids)"
| "find_nodes P preceding i [] = None"
| "find_nodes P preceding i (n # ns) =
     (case find_node P preceding n of
        Some p \<Rightarrow> Some (i # p)
      | None \<Rightarrow> find_nodes P (preceding @ [n]) (Suc i) ns)"

definition querySelector :: "selector \<Rightarrow> node \<Rightarrow> path option" where
  "querySelector sel root = find_node (matches sel) [] root"

fun node_at :: "node \<Rightarrow> path \<Rightarrow> node option" where
  "node_at n [] = Some n"
| "node_at (Element r t atts kids) (i # p) = (if i < length kids then node_at (kids ! i) p else None)"
| "node_at (Text s) (i # p) = None"

text \<open>
  The same walk down a position, also giving the siblings that precede the node reached:
  what a selector is matched against.
\<close>

fun context_at :: "node list \<Rightarrow> node \<Rightarrow> path \<Rightarrow> (node list \<times> node) option" where
  "context_at preceding n [] = Some (preceding, n)"
| "context_at preceding (Element r t atts kids) (i # p) =
     (if i < length kids then context_at (take i kids) (kids ! i) p else None)"
| "context_at preceding (Text s) (i # p) = None"

text \<open>
  Document order on positions, and what it means for a position to be the first match of
  a selector in a document, or for a document to have no match: the reference for
  \<open>querySelector\<close>.
\<close>

fun precedes_or_eq :: "path \<Rightarrow> path \<Rightarrow> bool" where
  "precedes_or_eq [] q = True"
| "precedes_or_eq (i # p) [] = False"
| "precedes_or_eq (i # p) (j # q) = (i < j \<or> (i = j \<and> precedes_or_eq p q))"

definition matches_at :: "selector \<Rightarrow> node \<Rightarrow> path \<Rightarrow> bool" where
  "matches_at sel doc p =
     (case context_at [] doc p of None \<Rightarrow> False | Some (b, e) \<Rightarrow> matches sel b e)"

definition first_match :: "selector \<Rightarrow> node \<Rightarrow> path \<Rightarrow> bool" where
  "first_match sel doc p = (matches_at sel doc p \<and> (\<forall>q. matches_at sel doc q \<longrightarrow> precedes_or_eq p q))"

definition no_match :: "selector \<Rightarrow> node \<Rightarrow> bool" where
  "no_match sel doc = (\<forall>q. \<not> matches_at sel doc q)"

text \<open>
  \<open>container.insertBefore(new, container.firstChild)\<close> for the container at a position:
  the new node becomes its first child.
\<close>

fun insert_first :: "path \<Rightarrow> node \<Rightarrow> node \<Rightarrow> node"
  and insert_first_in :: "nat \<Rightarrow> path \<Rightarrow> node \<Rightarrow> node list \<Rightarrow> node list"
where
  "insert_first [] new (Element r t atts kids) = Element r t atts (new # kids)"
| "insert_first (i # p) new (Element r t atts kids) = Element r t atts (insert_first_in i p new kids)"
| "insert_first p new (Text s) = Text s"
| "insert_first_in i p new [] = []"
| "insert_first_in 0 p new (k # ks) = insert_first p new k # ks"
| "insert_first_in (Suc i) p new (k # ks) = k # insert_first_in i p new ks"

text \<open>
  \<open>document.body\<close> is the first child of the \<open>html\<close> element that is a \<open>body\<close> or a
  \<open>frameset\<close> element, and \<open>null\<close> when there is none.
\<close>

fun body_index :: "nat \<Rightarrow> node list \<Rightarrow> nat option" where
  "body_index i [] = None"
| "body_index i (n # ns) =
     (if same_type (str ''body'') n \<or> same_type (str ''frameset'') n then Some i
      else body_index (Suc i) ns)"

fun document_body :: "node \<Rightarrow> path option" where
  "document_body (Element r t atts kids) =
     (if t = str ''html'' then map_option (\<lambda>i. [i]) (body_index 0 kids) else None)"
| "document_body (Text s) = None"


section \<open>Alerts (lines 185-204)\<close>

text \<open>
  The page as \<open>showAlert\<close> sees it: the document, the next free element identity, and the
  timers set with \<open>setTimeout\<close> in the order of the calls, each with its delay in
  milliseconds and its callback. The callbacks are \<open>Close_alert r\<close>, which closes the
  alert with identity \<open>r\<close> if it is still attached (lines 197-202), and \<open>Reload_page\<close>
  (line 166). Assigning \<open>innerHTML\<close> runs the browser's HTML fragment parser, a parameter
  \<open>parse_html\<close> of the model. A method call on \<open>null\<close> raises \<open>TypeError\<close>.
\<close>

datatype js_error = TypeError

datatype timer_action = Close_alert nat | Reload_page

record page =
  document :: node
  next_ref :: nat
  timers :: "(nat \<times> timer_action) list"

definition alert_className :: "js_string \<Rightarrow> bool \<Rightarrow> js_string" where
  "alert_className type permanent =
     str ''alert alert-'' @ type @ str '' alert-dismissible fade show '' @
     (if permanent then str ''alert-permanent'' else [])"

definition alert_innerHTML :: "js_string \<Rightarrow> js_string" where
  "alert_innerHTML message =
     [0x0A] @ replicate 12 0x20 @ message @
     [0x0A] @ replicate 12 0x20 @
     str ''<button type=\"button\" class=\"btn-close\" data-bs-dismiss=\"alert\"></button>'' @
     [0x0A] @ replicate 8 0x20"

definition alert_container :: "node \<Rightarrow> path option" where
  "alert_container doc =
     (case querySelector Container_first_of_type doc of
        Some p \<Rightarrow> Some p
      | None \<Rightarrow> document_body doc)"

definition showAlert ::
  "(js_string \<Rightarrow> node list) \<Rightarrow> js_string \<Rightarrow> js_string \<Rightarrow> bool \<Rightarrow> 'a page_scheme \<Rightarrow>
   js_error + 'a page_scheme"
where
  "showAlert parse_html type message permanent pg =
     (let alertDiv = Element (next_ref pg) (str ''div'')
                       [(str ''class'', alert_className type permanent)]
                       (parse_html (alert_innerHTML message));
          pg = pg\<lparr>next_ref := Suc (next_ref pg)\<rparr>
      in case alert_container (document pg) of
           None \<Rightarrow> Inl TypeError
         | Some container \<Rightarrow>
             (let pg = pg\<lparr>document := insert_first container alertDiv (document pg)\<rparr>
              in Inr (if \<not> permanent
                      then pg\<lparr>timers := timers pg @ [(5000, Close_alert (ref alertDiv))]\<rparr>
                      else pg)))"


section \<open>AJAX form submission (lines 131-182)\<close>

text \<open>
  The body that the endpoint answers with, as the network contract has it: a boolean
  success flag and, optionally, a message and a redirect URL, both strings. The body may
  also be the JSON value \<open>null\<close>, on which \<open>data.success\<close> raises \<open>TypeError\<close>.
\<close>

record response_data =
  data_success :: bool
  data_message :: "js_string option"
  data_redirect :: "js_string option"

datatype response_json = Null_value | Object_value response_data

text \<open>
  How the chain \<open>fetch(...).then(response => response.json())\<close> settles: rejected (the
  request failed, or the body is not JSON) or fulfilled with the parsed body. \<open>Thrown\<close> is
  an exception raised inside the \<open>then\<close> callback, which the \<open>catch\<close> callback receives
  like a rejection.
\<close>

datatype rejection = Network_failure | Body_not_json | Thrown js_error

datatype request_outcome = Request_rejected rejection | Response_parsed response_json

text \<open>
  The page as the submit listener sees it: the page of \<open>showAlert\<close>, the URL last assigned
  to \<open>window.location.href\<close>, the console, the form (its attributes and classes), the
  number of calls of \<open>form.reset()\<close>, and the submit control.
\<close>

record ajax_page = page +
  navigation :: "js_string option"
  console :: "(js_string \<times> rejection) list"
  ajax_form :: element
  form_resets :: nat
  submitBtn :: element

definition spinner_label :: js_string where
  "spinner_label =
     str ''<span class=\"spinner-border spinner-border-sm\" role=\"status\" aria-hidden=\"true\"></span> Processing...''"

text \<open>
  The listener up to the \<open>fetch\<close> call (lines 133-138), from the result of
  \<open>form.querySelector('[type="submit"]')\<close>: the label it saves in \<open>originalText\<close> and the
  control as it leaves it. Without a submit control the read of \<open>submitBtn.innerHTML\<close> raises
  and no request is sent.
\<close>

definition ajax_submit_handler ::
  "element option \<Rightarrow> event \<Rightarrow> (js_error + js_string \<times> element) \<times> event"
where
  "ajax_submit_handler found e =
     (let e = preventDefault e in
      case found of
        None \<Rightarrow> (Inl TypeError, e)
      | Some btn \<Rightarrow> (Inr (innerHTML btn, btn\<lparr>innerHTML := spinner_label, disabled := True\<rparr>), e))"

text \<open>\<open>v || 'd'\<close> for an optional string.\<close>

definition or_default :: "js_string option \<Rightarrow> string \<Rightarrow> js_string" where
  "or_default v d = (if truthy v then the v else str d)"

definition form_reset :: "ajax_page \<Rightarrow> ajax_page" where
  "form_reset st = st\<lparr>form_resets := Suc (form_resets st)\<rparr>"

text \<open>The \<open>then\<close> callback (lines 150-172).\<close>

definition on_response_data ::
  "(js_string \<Rightarrow> node list) \<Rightarrow> response_json \<Rightarrow> ajax_page \<Rightarrow> js_error + ajax_page"
where
  "on_response_data parse_html body st =
     (case body of
        Null_value \<Rightarrow> Inl TypeError
      | Object_value d \<Rightarrow>
          if data_success d then
            (if truthy (data_redirect d) then Inr (st\<lparr>navigation := data_redirect d\<rparr>)
             else
               (case showAlert parse_html (str ''success'')
                       (or_default (data_message d) ''Operation successful'') False st of
                  Inl err \<Rightarrow> Inl err
                | Inr st \<Rightarrow>
                    (let st = (if hasAttribute (ajax_form st) ''data-reset''
                               then (form_reset st)\<lparr>ajax_form :=
                                      classList_remove ''was-validated'' (ajax_form st)\<rparr>
                               else st);
                         st = (if hasAttribute (ajax_form st) ''data-reload''
                               then st\<lparr>timers := timers st @ [(1500, Reload_page)]\<rparr>
                               else st)
                     in Inr st)))
          else showAlert parse_html (str ''danger'')
                 (or_default (data_message d) ''An error occurred'') False st)"

text \<open>The \<open>catch\<close> callback (lines 173-176).\<close>

definition on_request_error ::
  "(js_string \<Rightarrow> node list) \<Rightarrow> rejection \<Rightarrow> ajax_page \<Rightarrow> js_error + ajax_page"
where
  "on_request_error parse_html error st =
     (case showAlert parse_html (str ''danger'') (str ''Network error. Please try again.'') False st of
        Inl err \<Rightarrow> Inl err
      | Inr st \<Rightarrow> Inr (st\<lparr>console := console st @ [(str ''Error:'', error)]\<rparr>))"

text \<open>The \<open>finally\<close> callback (lines 177-180).\<close>

definition restore_submit :: "js_string \<Rightarrow> ajax_page \<Rightarrow> ajax_page" where
  "restore_submit originalText st =
     st\<lparr>submitBtn := (submitBtn st)\<lparr>innerHTML := originalText, disabled := False\<rparr>\<rparr>"

text \<open>
  The chain \<open>.then(...).catch(...).finally(...)\<close> once the request has settled. Both
  callbacks raise only before their first effect, so \<open>catch\<close> and \<open>finally\<close> run on the
  page as it was. The result is the page and the error the chain is rejected with, if any.
\<close>

definition ajax_settled ::
  "(js_string \<Rightarrow> node list) \<Rightarrow> js_string \<Rightarrow> request_outcome \<Rightarrow> ajax_page \<Rightarrow>
   js_error option \<times> ajax_page"
where
  "ajax_settled parse_html originalText outcome st =
     (let after_then =
            (case outcome of
               Request_rejected r \<Rightarrow> Inl r
             | Response_parsed body \<Rightarrow>
                 (case on_response_data parse_html body st of
                    Inl err \<Rightarrow> Inl (Thrown err)
                  | Inr st' \<Rightarrow> Inr st'));
          after_catch =
            (case after_then of
               Inr st' \<Rightarrow> Inr st'
             | Inl r \<Rightarrow> on_request_error parse_html r st)
      in case after_catch of
           Inr st' \<Rightarrow> (None, restore_submit originalText st')
         | Inl err \<Rightarrow> (Some err, restore_submit originalText st))"


section \<open>Copy to clipboard (lines 207-226)\<close>

text \<open>
  The element before the button, as far as the listener reads it: its \<open>value\<close>
  (\<open>undefined\<close> on an element that has none) and its \<open>textContent\<close>.
\<close>

record sibling =
  sibling_value :: "js_string option"
  sibling_textContent :: js_string

text \<open>
  The page as the click listener sees it: the button, the element before it if any, the
  system clipboard, the timers set by the listener (the delay and the label that the
  callback restores, \<open>originalHTML\<close>) and the console.
\<close>

record copy_page =
  button :: element
  previousElementSibling :: "sibling option"
  system_clipboard :: js_string
  copy_timers :: "(nat \<times> js_string) list"
  copy_console :: "js_string list"

definition copied_label :: js_string where
  "copied_label = str ''<i class=\"fas fa-check\"></i> Copied!''"

text \<open>
  The click listener up to the call of \<open>navigator.clipboard.writeText\<close>: the text it passes,
  or the \<open>TypeError\<close> of reading \<open>value\<close> from a missing sibling.
\<close>

definition copy_click_handler :: "copy_page \<Rightarrow> js_error + js_string" where
  "copy_click_handler st =
     (if truthy (getAttribute (button st) ''data-clipboard-text'')
      then Inr (the (getAttribute (button st) ''data-clipboard-text''))
      else (case previousElementSibling st of
              None \<Rightarrow> Inl TypeError
            | Some prev \<Rightarrow>
                if truthy (sibling_value prev) then Inr (the (sibling_value prev))
                else Inr (sibling_textContent prev)))"

text \<open>
  The promise of \<open>writeText\<close> is fulfilled, and the clipboard then holds the text, or
  rejected. \<open>on_copied\<close> is the \<open>then\<close> callback and \<open>on_copy_failed\<close> the \<open>catch\<close> callback.
\<close>

datatype clipboard_outcome = Write_fulfilled | Write_rejected

definition on_copied :: "copy_page \<Rightarrow> copy_page" where
  "on_copied st =
     (let originalHTML = innerHTML (button st) in
      st\<lparr>button := classList_add ''btn-success'' ((button st)\<lparr>innerHTML := copied_label\<rparr>),
         copy_timers := copy_timers st @ [(2000, originalHTML)]\<rparr>)"

definition on_copy_failed :: "copy_page \<Rightarrow> copy_page" where
  "on_copy_failed st = st\<lparr>copy_console := copy_console st @ [str ''Failed to copy: '']\<rparr>"

definition clipboard_settled :: "clipboard_outcome \<Rightarrow> js_string \<Rightarrow> copy_page \<Rightarrow> copy_page" where
  "clipboard_settled outcome text st =
     (case outcome of
        Write_fulfilled \<Rightarrow> on_copied (st\<lparr>system_clipboard := text\<rparr>)
      | Write_rejected \<Rightarrow> on_copy_failed st)"

text \<open>The callback of the timer (lines 218-221), run when the timer fires.\<close>

definition copy_timer_fires :: "nat \<times> js_string \<Rightarrow> copy_page \<Rightarrow> copy_page" where
  "copy_timer_fires timer st =
     (let originalHTML = snd timer in
      st\<lparr>button := classList_remove ''btn-success'' ((button st)\<lparr>innerHTML := originalHTML\<rparr>),
         copy_timers := remove1 timer (copy_timers st)\<rparr>)"


section \<open>Tab persistence (lines 229-241)\<close>

text \<open>
  \<open>localStorage\<close> maps keys to strings. \<open>setItem\<close> converts the value it is given to a
  string, so the \<open>null\<close> that \<open>getAttribute\<close> returns for a missing attribute is stored as
  the text \<open>null\<close>.
\<close>

type_synonym storage = "js_string \<rightharpoonup> js_string"

definition setItem :: "string \<Rightarrow> js_string option \<Rightarrow> storage \<Rightarrow> storage" where
  "setItem key v storage = storage(str key \<mapsto> (case v of None \<Rightarrow> str ''null'' | Some s \<Rightarrow> s))"

text \<open>The click listener of a tab trigger, from \<open>e.target\<close>.\<close>

definition tab_click_handler :: "node \<Rightarrow> storage \<Rightarrow> storage" where
  "tab_click_handler target storage = setItem ''activeTab'' (node_attribute target ''href'') storage"

text \<open>
  The listener is registered on every \<open>a[data-bs-toggle="tab"]\<close>. A click on an element
  inside the trigger, at position \<open>p\<close> from the trigger, bubbles to the listener with that
  element as \<open>e.target\<close>; the position \<open>[]\<close> is the trigger itself.
\<close>

definition is_tab_trigger :: "node \<Rightarrow> bool" where
  "is_tab_trigger n =
     (same_type (str ''a'') n \<and> node_attribute n ''data-bs-toggle'' = Some (str ''tab''))"

definition click_in_tab :: "node \<Rightarrow> path \<Rightarrow> storage \<Rightarrow> storage option" where
  "click_in_tab tab p storage =
     (if is_tab_trigger tab
      then (case node_at tab p of
              Some (Element r t atts kids) \<Rightarrow> Some (tab_click_handler (Element r t atts kids) storage)
            | _ \<Rightarrow> None)
      else None)"

text \<open>
  At page load the stored text is pasted between the quotes of \<open>a[href="..."]\<close>. The result
  is the selector \<open>Anchor_with_href\<close> of that text when the text has no code unit that a CSS
  string treats specially: the quote, the backslash, line feed, form feed, carriage return,
  the null character and the surrogates. Other texts give a different selector or a syntax
  error and are left out of the model (\<open>Selector_not_modelled\<close>). \<open>Tab_shown p\<close> is the call
  \<open>new bootstrap.Tab(tabElement).show()\<close> on the element at position \<open>p\<close>.
\<close>

definition css_plain_unit :: "code_unit \<Rightarrow> bool" where
  "css_plain_unit u =
     (u \<noteq> 0x22 \<and> u \<noteq> 0x5C \<and> u \<noteq> 0x0A \<and> u \<noteq> 0x0C \<and> u \<noteq> 0x0D \<and> u \<noteq> 0x00 \<and>
      \<not> (0xD800 \<le> u \<and> u \<le> 0xDFFF))"

definition css_string_plain :: "js_string \<Rightarrow> bool" where
  "css_string_plain s = list_all css_plain_unit s"

datatype restore_result = No_tab_shown | Tab_shown path | Selector_not_modelled

definition restore_active_tab :: "storage \<Rightarrow> node \<Rightarrow> restore_result" where
  "restore_active_tab storage doc =
     (let activeTab = storage (str ''activeTab'') in
      if truthy activeTab then
        (if css_string_plain (the activeTab)
         then (case querySelector (Anchor_with_href (the activeTab)) doc of
                 None \<Rightarrow> No_tab_shown
               | Some tabElement \<Rightarrow> Tab_shown tabElement)
         else Selector_not_modelled)
      else No_tab_shown)"


section \<open>Image preview (lines 101-128)\<close>

text \<open>
  A selected file, with the data URL that \<open>readAsDataURL\<close> produces for it when the read
  succeeds; a file input, with its \<open>data-preview\<close> attribute and its \<open>files\<close>.
\<close>

record image_file =
  file_name :: js_string
  data_url :: js_string

record file_input =
  data_preview :: "js_string option"
  files :: "image_file list"

text \<open>
  The page as the change listener sees it: the children of the elements that have an id
  (what \<open>getElementById\<close> finds), the reads in flight, each with the preview container its
  \<open>onload\<close> callback appends to and its file, and the next free reader and element
  identities.
\<close>

record preview_page =
  preview_children :: "js_string \<rightharpoonup> node list"
  pending_reads :: "nat \<rightharpoonup> js_string \<times> image_file"
  next_reader :: nat
  next_img :: nat

text \<open>The \<open>img\<close> element that \<open>onload\<close> creates (lines 117-121).\<close>

definition thumbnail :: "nat \<Rightarrow> js_string \<Rightarrow> node" where
  "thumbnail r url =
     Element r (str ''img'')
       [(str ''src'', url), (str ''class'', str ''img-thumbnail m-1''),
        (str ''style'', str ''max-width: 100px; max-height: 100px;'')] []"

text \<open>The loop over the files: one reader per file, each started with \<open>readAsDataURL\<close>.\<close>

fun start_reads :: "js_string \<Rightarrow> image_file list \<Rightarrow> preview_page \<Rightarrow> preview_page" where
  "start_reads previewId [] st = st"
| "start_reads previewId (f # fs) st =
     start_reads previewId fs
       (st\<lparr>pending_reads := (pending_reads st)(next_reader st \<mapsto> (previewId, f)),
           next_reader := Suc (next_reader st)\<rparr>)"

text \<open>The change listener (lines 102-127).\<close>

definition file_input_change :: "file_input \<Rightarrow> preview_page \<Rightarrow> preview_page" where
  "file_input_change this st =
     (if \<not> truthy (data_preview this) then st
      else (let previewId = the (data_preview this) in
            case preview_children st previewId of
              None \<Rightarrow> st
            | Some old \<Rightarrow>
                start_reads previewId (files this)
                  (st\<lparr>preview_children := (preview_children st)(previewId \<mapsto> [])\<rparr>)))"

text \<open>
  A read ends with the \<open>load\<close> event, on which \<open>onload\<close> appends the thumbnail to the
  container it was started for, or with an error, for which no callback is registered.
  Reads end in any order, one event at a time.
\<close>

datatype read_event = Read_loaded nat | Read_failed nat

fun read_settled :: "read_event \<Rightarrow> preview_page \<Rightarrow> preview_page" where
  "read_settled (Read_loaded r) st =
     (case pending_reads st r of
        None \<Rightarrow> st
      | Some (previewId, f) \<Rightarrow>
          st\<lparr>preview_children := (preview_children st)
                 (previewId \<mapsto> (case preview_children st previewId of None \<Rightarrow> [] | Some kids \<Rightarrow> kids) @
                               [thumbnail (next_img st) (data_url f)]),
             pending_reads := (pending_reads st)(r := None),
             next_img := Suc (next_img st)\<rparr>)"
| "read_settled (Read_failed r) st = st\<lparr>pending_reads := (pending_reads st)(r := None)\<rparr>"

definition reads_settled :: "read_event list \<Rightarrow> preview_page \<Rightarrow> preview_page" where
  "reads_settled evs st = foldl (\<lambda>s ev. read_settled ev s) st evs"

text \<open>What identifies a thumbnail among the children of a container.\<close>

definition thumbnail_source :: "node \<Rightarrow> js_string option" where
  "thumbnail_source n = node_attribute n ''src''"

definition is_thumbnail :: "node \<Rightarrow> bool" where
  "is_thumbnail n =
     (same_type (str ''img'') n \<and> node_attribute n ''class'' = Some (str ''img-thumbnail m-1''))"


section \<open>Example pages\<close>

text \<open>
  A document whose navigation bar holds a \<open>div.container\<close> and whose body has a second one:
  \<open>html > head, body > (nav.navbar > div.container), div.container.main\<close>.
\<close>

definition example_document :: node where
  "example_document =
     Element 0 (str ''html'') []
       [Element 1 (str ''head'') [] [],
        Element 2 (str ''body'') []
          [Element 3 (str ''nav'') [(str ''class'', str ''navbar'')]
             [Element 4 (str ''div'') [(str ''class'', str ''container'')] []],
           Element 5 (str ''div'') [(str ''class'', str ''container main'')] []]]"

text \<open>
  A document whose only \<open>div.container\<close> comes after another \<open>div\<close> of the same parent:
  \<open>html > head, body > div.header, div.container\<close>.
\<close>

definition example_header_document :: node where
  "example_header_document =
     Element 0 (str ''html'') []
       [Element 1 (str ''head'') [] [],
        Element 2 (str ''body'') []
          [Element 3 (str ''div'') [(str ''class'', str ''header'')] [],
           Element 4 (str ''div'') [(str ''class'', str ''container'')] []]]"

text \<open>The page while a request of its form is in flight.\<close>

definition example_ajax_page :: ajax_page where
  "example_ajax_page =
     \<lparr>document = example_document, next_ref = 6, timers = [],
      navigation = None, console = [],
      ajax_form = \<lparr>attributes = [str ''data-ajax'' \<mapsto> []], classList = [], textContent = [],
                    innerHTML = [], disabled = False\<rparr>,
      form_resets = 0,
      submitBtn = \<lparr>attributes = [str ''type'' \<mapsto> str ''submit''], classList = [],
                    textContent = [], innerHTML = spinner_label, disabled = True\<rparr>\<rparr>"

text \<open>A copy button with the text \<open>abc\<close> to copy.\<close>

definition example_copy_page :: copy_page where
  "example_copy_page =
     \<lparr>button = \<lparr>attributes = [str ''data-clipboard-text'' \<mapsto> str ''abc''],
                 classList = [str ''btn'', str ''copy-to-clipboard''], textContent = [],
                 innerHTML = str ''Copy'', disabled = False\<rparr>,
      previousElementSibling = None, system_clipboard = [], copy_timers = [], copy_console = []\<rparr>"

text \<open>
  A tab trigger with an icon inside, and a document with it and an anchor whose \<open>href\<close> is
  empty.
\<close>

definition example_tab :: node where
  "example_tab =
     Element 12 (str ''a'') [(str ''data-bs-toggle'', str ''tab''), (str ''href'', str ''#profile'')]
       [Element 13 (str ''i'') [(str ''class'', str ''fas fa-user'')] [], Text (str '' Profile'')]"

definition example_tab_document :: node where
  "example_tab_document =
     Element 10 (str ''html'') []
       [Element 11 (str ''body'') []
          [example_tab, Element 14 (str ''a'') [(str ''href'', [])] [Text (str ''top'')]]]"

text \<open>A page with one preview container, two files, and a file input that selects files.\<close>

definition example_preview_page :: preview_page where
  "example_preview_page =
     \<lparr>preview_children = [str ''preview'' \<mapsto> [Text (str ''No image'')]],
      pending_reads = Map.empty, next_reader = 0, next_img = 0\<rparr>"

definition photo_a :: image_file where
  "photo_a = \<lparr>file_name = str ''a.png'', data_url = str ''data:image/png;base64,QQ==''\<rparr>"

definition photo_b :: image_file where
  "photo_b = \<lparr>file_name = str ''b.png'', data_url = str ''data:image/png;base64,Qg==''\<rparr>"

definition selection :: "image_file list \<Rightarrow> file_input" where
  "selection fs = \<lparr>data_preview = Some (str ''preview''), files = fs\<rparr>"


section \<open>Properties\<close>

subsection \<open>Phone numbers\<close>

lemma match_groups_all_digits:
  "list_all is_digit d \<Longrightarrow> sum_list ws < length d \<Longrightarrow>
   match_groups ws d = Some (split_groups ws d, [])"
proof (induction ws arbitrary: d)
  case Nil
  then show ?case
    by (cases d) (auto simp: list_all_iff takeWhile_eq_all_conv dropWhile_eq_Nil_conv)
next
  case (Cons w ws)
  have "list_all is_digit (take w d)" "list_all is_digit (drop w d)"
    using Cons.prems(1) by (auto simp: list_all_iff dest: in_set_takeD in_set_dropD)
  moreover have "sum_list ws < length (drop w d)" "w \<le> length d"
    using Cons.prems(2) by auto
  ultimately show ?case
    using Cons.IH [of "drop w d"] by simp
qed

lemma replace_groups_all_digits:
  assumes "list_all is_digit d" "sum_list ws < length d"
  shows "replace_groups ws d = join_hyphen (split_groups ws d)"
proof (cases d)
  case Nil
  with assms(2) show ?thesis by simp
next
  case (Cons c cs)
  have "match_groups ws (c # cs) = Some (split_groups ws (c # cs), [])"
    using match_groups_all_digits [OF assms] Cons by simp
  then show ?thesis using Cons by simp
qed

lemma filter_is_digit_all: "list_all is_digit (filter is_digit v)"
  by (simp add: list_all_iff)

text \<open>
  C2. After an input event on a phone field, a value whose digits are \<open>1234567890\<close> is
  rewritten to \<open>123-456-7890\<close>; a value with more than ten digits is rewritten to its first
  three digits, the next three, the next four and, as a fourth group, all the digits beyond
  the tenth, separated by hyphens.
\<close>

theorem tel_input_grouping:
  "(filter is_digit v = str ''1234567890'' \<longrightarrow> tel_input_handler v = str ''123-456-7890'') \<and>
   (10 < length (filter is_digit v) \<longrightarrow>
      tel_input_handler v =
        take 3 (filter is_digit v) @ str ''-'' @ take 3 (drop 3 (filter is_digit v)) @ str ''-'' @
        take 4 (drop 6 (filter is_digit v)) @ str ''-'' @ drop 10 (filter is_digit v))"
proof (intro conjI impI)
  assume "filter is_digit v = str ''1234567890''"
  then show "tel_input_handler v = str ''123-456-7890''"
    by (simp add: tel_input_handler_def str_def is_digit_def)
next
  let ?d = "filter is_digit v"
  assume long: "10 < length ?d"
  then have "replace_groups [3, 3, 4] ?d = join_hyphen (split_groups [3, 3, 4] ?d)"
    by (intro replace_groups_all_digits filter_is_digit_all) simp
  with long show "tel_input_handler v =
        take 3 ?d @ str ''-'' @ take 3 (drop 3 ?d) @ str ''-'' @
        take 4 (drop 6 ?d) @ str ''-'' @ drop 10 ?d"
    by (simp add: tel_input_handler_def Let_def)
qed

theorem tel_input_grouping_witness:
  "tel_input_handler (str ''(123) 456-7890'') = str ''123-456-7890'' \<and>
   tel_input_handler (str ''123-456-78901'') = str ''123-456-7890-1''"
proof -
  have a: "filter is_digit (str ''(123) 456-7890'') = str ''1234567890''"
    by (simp add: str_def is_digit_def)
  have b: "filter is_digit (str ''123-456-78901'') = str ''12345678901''"
    by (simp add: str_def is_digit_def)
  have "tel_input_handler (str ''(123) 456-7890'') = str ''123-456-7890''"
    using tel_input_grouping [of "str ''(123) 456-7890''"] unfolding a by simp
  moreover have "tel_input_handler (str ''123-456-78901'') = str ''123-456-7890-1''"
    using tel_input_grouping [of "str ''123-456-78901''"] unfolding b by (simp add: str_def)
  ultimately show ?thesis by simp
qed


subsection \<open>Character counter\<close>

lemma unat_digit_unit: "d < 10 \<Longrightarrow> unat (digit_unit d) = 48 + d"
  unfolding digit_unit_def by (subst unat_of_nat) simp

lemma is_digit_digit_unit: "d < 10 \<Longrightarrow> is_digit (digit_unit d)"
  by (simp add: is_digit_def word_le_nat_alt unat_digit_unit)

lemma digit_value_digit_unit: "d < 10 \<Longrightarrow> digit_value (digit_unit d) = d"
  by (simp add: digit_value_def unat_digit_unit)

lemma digits_of_all_digits: "list_all is_digit (digits_of n)"
  by (induction n rule: digits_of.induct) (subst digits_of.simps, simp add: is_digit_digit_unit)

lemma digits_of_not_Nil: "digits_of n \<noteq> []"
  by (subst digits_of.simps) simp

lemma decimal_value_snoc: "decimal_value (s @ [u]) = 10 * decimal_value s + digit_value u"
  by (simp add: decimal_value_def)

lemma decimal_value_digits_of: "decimal_value (digits_of n) = n"
proof (induction n rule: digits_of.induct)
  case (1 n)
  show ?case
  proof (cases "n < 10")
    case True
    then show ?thesis
      by (subst digits_of.simps) (simp add: decimal_value_def digit_value_digit_unit)
  next
    case False
    with 1 show ?thesis
      by (subst digits_of.simps) (simp add: decimal_value_snoc digit_value_digit_unit)
  qed
qed

lemma to_number_digits_of: "to_number (digits_of n) = Some n"
  by (simp add: to_number_def digits_of_all_digits digits_of_not_Nil decimal_value_digits_of)

lemma classList_add_mem: "str c \<in> set (classList (classList_add c el))"
  by (simp add: classList_add_def)

lemma classList_remove_mem: "str c \<notin> set (classList (classList_remove c el))"
  by (simp add: classList_remove_def)

lemma updateCounter_numeral:
  assumes "to_number a = Some N"
  shows "\<exists>c. updateCounter v a counter = Some c \<and>
             textContent c = digits_of (length v) @ str ''/'' @ a @ str '' characters'' \<and>
             (str ''text-danger'' \<in> set (classList c) \<longleftrightarrow> N < length v)"
proof (cases "N < length v")
  case True
  then have "updateCounter v a counter =
      Some (classList_add ''text-danger''
        (counter\<lparr>textContent := digits_of (length v) @ str ''/'' @ a @ str '' characters''\<rparr>))"
    using assms by (simp add: updateCounter_def number_gt_string_def)
  with True show ?thesis
    by (simp add: classList_add_mem) (simp add: classList_add_def)
next
  case False
  then have "updateCounter v a counter =
      Some (classList_remove ''text-danger''
        (counter\<lparr>textContent := digits_of (length v) @ str ''/'' @ a @ str '' characters''\<rparr>))"
    using assms by (simp add: updateCounter_def number_gt_string_def)
  with False show ?thesis
    by (simp add: classList_remove_mem) (simp add: classList_remove_def)
qed

text \<open>
  C1. For a textarea whose \<open>data-max-length\<close> attribute is the numeral of \<open>N\<close>, the
  input listener leaves the counter reading \<open>L/N characters\<close>, where \<open>L\<close> is the length
  of the value, and the counter has the class \<open>text-danger\<close> if and only if \<open>L > N\<close>.
\<close>

theorem updateCounter_reads:
  "\<exists>c. updateCounter v (digits_of N) counter = Some c \<and>
       textContent c = digits_of (length v) @ str ''/'' @ digits_of N @ str '' characters'' \<and>
       (str ''text-danger'' \<in> set (classList c) \<longleftrightarrow> N < length v)"
  by (rule updateCounter_numeral) (rule to_number_digits_of)

theorem updateCounter_reads_witness:
  "\<exists>c. updateCounter (str ''hello'') (str ''3'') (new_counter (str ''counter-bio'')) = Some c \<and>
       textContent c = str ''5/3 characters'' \<and> str ''text-danger'' \<in> set (classList c)"
proof -
  have d: "digits_of 3 = str ''3''" "digits_of 5 = str ''5''"
    by (simp_all add: digits_of.simps digit_unit_def str_def)
  have l: "length (str ''hello'') = 5"
    by (simp add: str_def)
  show ?thesis
    using updateCounter_reads [of "str ''hello''" 3 "new_counter (str ''counter-bio'')"]
    unfolding l d by (simp add: str_def)
qed


subsection \<open>Form validation\<close>

text \<open>
  C6. On a submit event of a form that fails constraint validation the listener prevents
  the default action, stops propagation and the form has the class \<open>was-validated\<close>
  afterwards; on a form that passes, the listener leaves the event as it was, so the
  default action is not prevented by it.
\<close>

theorem form_submit_validation:
  "(\<not> valid \<longrightarrow>
      defaultPrevented (snd (form_submit_handler valid form e)) \<and>
      propagationStopped (snd (form_submit_handler valid form e)) \<and>
      str ''was-validated'' \<in> set (classList (fst (form_submit_handler valid form e)))) \<and>
   (valid \<longrightarrow> snd (form_submit_handler valid form e) = e)"
  by (simp add: form_submit_handler_def preventDefault_def stopPropagation_def classList_add_mem)

theorem form_submit_validation_witness:
  "defaultPrevented (snd (form_submit_handler False
      \<lparr>attributes = Map.empty, classList = [], textContent = [], innerHTML = [], disabled = False\<rparr>
      \<lparr>defaultPrevented = False, propagationStopped = False\<rparr>)) \<and>
   \<not> defaultPrevented (snd (form_submit_handler True
      \<lparr>attributes = Map.empty, classList = [], textContent = [], innerHTML = [], disabled = False\<rparr>
      \<lparr>defaultPrevented = False, propagationStopped = False\<rparr>))"
  using form_submit_validation [of False
      "\<lparr>attributes = Map.empty, classList = [], textContent = [], innerHTML = [], disabled = False\<rparr>"
      "\<lparr>defaultPrevented = False, propagationStopped = False\<rparr>"]
    form_submit_validation [of True
      "\<lparr>attributes = Map.empty, classList = [], textContent = [], innerHTML = [], disabled = False\<rparr>"
      "\<lparr>defaultPrevented = False, propagationStopped = False\<rparr>"]
  by simp

subsection \<open>The document tree and alerts\<close>

lemma node_at_context: "node_at n p = map_option snd (context_at preceding n p)"
proof (induction p arbitrary: n preceding)
  case Nil
  then show ?case by simp
next
  case (Cons i p)
  then show ?case by (cases n) auto
qed

lemma find_node_matches:
  "find_node P preceding n = Some p \<Longrightarrow>
     \<exists>b e. context_at preceding n p = Some (b, e) \<and> is_element e \<and> P b e"
  "find_nodes P preceding i ns = Some q \<Longrightarrow>
     \<exists>j p b e. q = (i + j) # p \<and> j < length ns \<and>
        context_at (preceding @ take j ns) (ns ! j) p = Some (b, e) \<and> is_element e \<and> P b e"
proof (induction P preceding n and P preceding i ns arbitrary: p and q rule: find_node_find_nodes.induct)
  case (1 P preceding s)
  then show ?case by simp
next
  case (2 P preceding r t atts kids)
  show ?case
  proof (cases "P preceding (Element r t atts kids)")
    case True
    with 2 show ?thesis by auto
  next
    case False
    with 2 obtain j p' b e where "p = j # p'" "j < length kids"
      "context_at (take j kids) (kids ! j) p' = Some (b, e)" "is_element e" "P b e"
      by fastforce
    then show ?thesis by auto
  qed
next
  case (3 P preceding i)
  then show ?case by simp
next
  case (4 P preceding i n ns)
  show ?case
  proof (cases "find_node P preceding n")
    case None
    with 4 obtain j p b e where "q = (Suc i + j) # p" "j < length ns"
      "context_at ((preceding @ [n]) @ take j ns) (ns ! j) p = Some (b, e)" "is_element e" "P b e"
      by fastforce
    then have "q = (i + Suc j) # p \<and> Suc j < length (n # ns) \<and>
        context_at (preceding @ take (Suc j) (n # ns)) ((n # ns) ! Suc j) p = Some (b, e) \<and>
        is_element e \<and> P b e"
      by simp
    then show ?thesis by blast
  next
    case (Some p')
    with 4 obtain b e where "context_at preceding n p' = Some (b, e)" "is_element e" "P b e" "q = i # p'"
      by fastforce
    then have "q = (i + 0) # p' \<and> 0 < length (n # ns) \<and>
        context_at (preceding @ take 0 (n # ns)) ((n # ns) ! 0) p' = Some (b, e) \<and>
        is_element e \<and> P b e"
      by simp
    then show ?thesis by blast
  qed
qed

lemma find_node_None:
  "find_node P preceding n = None \<Longrightarrow> context_at preceding n p = Some (b, e) \<Longrightarrow>
     is_element e \<Longrightarrow> \<not> P b e"
  "find_nodes P preceding i ns = None \<Longrightarrow> j < length ns \<Longrightarrow>
     context_at (preceding @ take j ns) (ns ! j) q = Some (b, e) \<Longrightarrow> is_element e \<Longrightarrow> \<not> P b e"
proof (induction P preceding n and P preceding i ns arbitrary: p b e and j q b e
    rule: find_node_find_nodes.induct)
  case (1 P preceding s)
  then show ?case by (cases p) auto
next
  case (2 P preceding r t atts kids)
  from "2.prems"(1) have nP: "\<not> P preceding (Element r t atts kids)"
    and sub: "find_nodes P [] 0 kids = None"
    by (auto split: if_splits)
  show ?case
  proof (cases p)
    case Nil
    with "2.prems" nP show ?thesis by simp
  next
    case (Cons j p')
    with "2.prems"(2) have "j < length kids" "context_at ([] @ take j kids) (kids ! j) p' = Some (b, e)"
      by (auto split: if_splits)
    with "2.IH" [OF nP sub] "2.prems"(3) show ?thesis by blast
  qed
next
  case (3 P preceding i)
  then show ?case by simp
next
  case (4 P preceding i n ns)
  from "4.prems"(1) have here: "find_node P preceding n = None"
    and rest: "find_nodes P (preceding @ [n]) (Suc i) ns = None"
    by (auto split: option.splits)
  show ?case
  proof (cases j)
    case 0
    with "4.prems" have "context_at preceding n q = Some (b, e)" by simp
    with "4.IH"(1) [OF here] "4.prems"(4) show ?thesis by blast
  next
    case (Suc j')
    with "4.prems" have "j' < length ns"
      "context_at ((preceding @ [n]) @ take j' ns) (ns ! j') q = Some (b, e)"
      by simp_all
    with "4.IH"(2) [OF here rest] "4.prems"(4) show ?thesis by blast
  qed
qed

lemma find_node_first:
  "find_node P preceding n = Some p \<Longrightarrow> context_at preceding n q = Some (b, e) \<Longrightarrow>
     is_element e \<Longrightarrow> P b e \<Longrightarrow> precedes_or_eq p q"
  "find_nodes P preceding i ns = Some r \<Longrightarrow> j < length ns \<Longrightarrow>
     context_at (preceding @ take j ns) (ns ! j) q' = Some (b, e) \<Longrightarrow> is_element e \<Longrightarrow> P b e \<Longrightarrow>
     precedes_or_eq r ((i + j) # q')"
proof (induction P preceding n and P preceding i ns arbitrary: p q b e and r j q' b e
    rule: find_node_find_nodes.induct)
  case (1 P preceding s)
  then show ?case by simp
next
  case (2 P preceding r t atts kids)
  show ?case
  proof (cases "P preceding (Element r t atts kids)")
    case True
    with "2.prems"(1) show ?thesis by simp
  next
    case False
    with "2.prems"(1) have sub: "find_nodes P [] 0 kids = Some p" by simp
    show ?thesis
    proof (cases q)
      case Nil
      with "2.prems" False show ?thesis by simp
    next
      case (Cons j q')
      with "2.prems"(2) have "j < length kids" "context_at ([] @ take j kids) (kids ! j) q' = Some (b, e)"
        by (auto split: if_splits)
      with "2.IH" [OF False sub] "2.prems"(3,4) have "precedes_or_eq p ((0 + j) # q')" by blast
      with Cons show ?thesis by simp
    qed
  qed
next
  case (3 P preceding i)
  then show ?case by simp
next
  case (4 P preceding i n ns)
  show ?case
  proof (cases "find_node P preceding n")
    case (Some p')
    with "4.prems"(1) have r: "r = i # p'" by simp
    show ?thesis
    proof (cases j)
      case 0
      with "4.prems" have "context_at preceding n q' = Some (b, e)" by simp
      with "4.IH"(1) [OF Some] "4.prems"(4,5) have "precedes_or_eq p' q'" by blast
      with r 0 show ?thesis by simp
    next
      case (Suc j')
      with r show ?thesis by simp
    qed
  next
    case None
    with "4.prems"(1) have rest: "find_nodes P (preceding @ [n]) (Suc i) ns = Some r" by simp
    show ?thesis
    proof (cases j)
      case 0
      with "4.prems" have "context_at preceding n q' = Some (b, e)" by simp
      with find_node_None(1) [OF None] "4.prems"(4,5) show ?thesis by blast
    next
      case (Suc j')
      with "4.prems" have "j' < length ns"
        "context_at ((preceding @ [n]) @ take j' ns) (ns ! j') q' = Some (b, e)"
        by simp_all
      with "4.IH"(2) [OF None rest] "4.prems"(4,5) have "precedes_or_eq r ((Suc i + j') # q')" by blast
      with Suc show ?thesis by simp
    qed
  qed
qed

lemma insert_first_in_eq:
  "i < length kids \<Longrightarrow> insert_first_in i p new kids = kids[i := insert_first p new (kids ! i)]"
proof (induction kids arbitrary: i)
  case Nil
  then show ?case by simp
next
  case (Cons k ks)
  then show ?case by (cases i) simp_all
qed

lemma node_at_insert_first:
  "node_at n p = Some (Element r t atts kids) \<Longrightarrow>
   node_at (insert_first p new n) p = Some (Element r t atts (new # kids))"
proof (induction p arbitrary: n)
  case Nil
  then show ?case by simp
next
  case (Cons i p)
  then show ?case
    by (cases n) (auto simp: insert_first_in_eq split: if_splits)
qed

lemma body_index_sound:
  "body_index i ns = Some k \<Longrightarrow> i \<le> k \<and> k - i < length ns \<and> is_element (ns ! (k - i))"
proof (induction ns arbitrary: i)
  case Nil
  then show ?case by simp
next
  case (Cons n ns)
  show ?case
  proof (cases "same_type (str ''body'') n \<or> same_type (str ''frameset'') n")
    case True
    with Cons.prems have "k = i" by simp
    moreover from True have "is_element n" by (cases n) auto
    ultimately show ?thesis by simp
  next
    case False
    with Cons.prems have "body_index (Suc i) ns = Some k" by simp
    from Cons.IH [OF this] show ?thesis
      by (auto simp: nth_Cons' Suc_diff_le)
  qed
qed

lemma document_body_sound:
  "document_body n = Some p \<Longrightarrow> \<exists>e. node_at n p = Some e \<and> is_element e"
proof (cases n)
  case (Element r t atts kids)
  assume "document_body n = Some p"
  with Element obtain k where "body_index 0 kids = Some k" "p = [k]"
    by (auto split: if_splits)
  with body_index_sound [of 0 kids k] Element show ?thesis by auto
next
  case (Text s)
  assume "document_body n = Some p"
  with Text show ?thesis by simp
qed

lemma find_node_element:
  assumes "find_node P preceding n = Some p"
  shows "\<exists>e. node_at n p = Some e \<and> is_element e"
proof -
  from find_node_matches(1) [OF assms]
  obtain b e where "context_at preceding n p = Some (b, e)" "is_element e" by blast
  then show ?thesis by (simp add: node_at_context [of n p preceding])
qed

lemma alert_container_sound:
  "alert_container doc = Some p \<Longrightarrow> \<exists>r t atts kids. node_at doc p = Some (Element r t atts kids)"
proof -
  assume "alert_container doc = Some p"
  then have "\<exists>e. node_at doc p = Some e \<and> is_element e"
    by (auto simp: alert_container_def querySelector_def split: option.splits
             dest: find_node_element document_body_sound)
  then obtain e where "node_at doc p = Some e" "is_element e" by blast
  then show ?thesis by (cases e) auto
qed

lemma tokens_from_word:
  "no_whitespace w \<Longrightarrow> tokens_from cur (w @ rest) = tokens_from (cur @ w) rest"
  by (induction w arbitrary: cur) (simp_all add: no_whitespace_def)

lemma tokens_from_literal_space:
  "tokens_from cur (0x20 # rest) = (if cur = [] then tokens_from [] rest else cur # tokens_from [] rest)"
  by (simp add: is_ascii_whitespace_def)

lemma no_whitespace_literals:
  "no_whitespace (str ''alert'')" "no_whitespace (str ''alert-'')"
  "no_whitespace (str ''alert-dismissible'')" "no_whitespace (str ''fade'')"
  "no_whitespace (str ''show'')" "no_whitespace (str ''alert-permanent'')"
  by (simp_all add: no_whitespace_def str_def is_ascii_whitespace_def)

lemma alert_className_split:
  "alert_className type permanent =
     str ''alert'' @ 0x20 # (str ''alert-'' @ type) @ 0x20 # str ''alert-dismissible'' @ 0x20 #
     str ''fade'' @ 0x20 # str ''show'' @ 0x20 # (if permanent then str ''alert-permanent'' else [])"
  by (simp add: alert_className_def str_def)

lemma tokens_alert_className:
  assumes "no_whitespace type"
  shows "tokens_from [] (alert_className type permanent) =
     [str ''alert'', str ''alert-'' @ type, str ''alert-dismissible'', str ''fade'', str ''show''] @
     (if permanent then [str ''alert-permanent''] else [])"
proof -
  have nw: "no_whitespace (str ''alert-'' @ type)"
    using assms no_whitespace_literals(2) by (simp add: no_whitespace_def)
  have ne: "str ''alert'' \<noteq> []" "str ''alert-'' @ type \<noteq> []" "str ''alert-dismissible'' \<noteq> []"
    "str ''fade'' \<noteq> []" "str ''show'' \<noteq> []" "str ''alert-permanent'' \<noteq> []"
    by (simp_all add: str_def)
  have last: "tokens_from [] (if permanent then str ''alert-permanent'' else []) =
      (if permanent then [str ''alert-permanent''] else [])"
    using tokens_from_word [OF no_whitespace_literals(6), of "[]" "[]"] ne(6) by simp
  show ?thesis
    unfolding alert_className_split
    by (simp only: tokens_from_word no_whitespace_literals nw tokens_from_literal_space
          append_Nil ne if_False last append_Cons)
qed

lemma precedes_or_eq_antisym: "precedes_or_eq p q \<Longrightarrow> precedes_or_eq q p \<Longrightarrow> p = q"
proof (induction p q rule: precedes_or_eq.induct)
  case (1 q)
  then show ?case by (cases q) auto
next
  case (2 i p)
  then show ?case by simp
next
  case (3 i p j q)
  then show ?case by auto
qed

lemma matches_element: "matches sel b e \<Longrightarrow> is_element e"
  by (cases e) auto

lemma querySelector_first_match: "querySelector sel doc = Some p \<longleftrightarrow> first_match sel doc p"
proof
  assume q: "querySelector sel doc = Some p"
  then have f: "find_node (matches sel) [] doc = Some p" by (simp add: querySelector_def)
  from find_node_matches(1) [OF f] have "matches_at sel doc p"
    by (auto simp: matches_at_def)
  moreover have "precedes_or_eq p q" if "matches_at sel doc q" for q
  proof -
    from that obtain b e where "context_at [] doc q = Some (b, e)" "matches sel b e"
      by (auto simp: matches_at_def split: option.splits)
    with find_node_first(1) [OF f] matches_element show ?thesis by blast
  qed
  ultimately show "first_match sel doc p" by (simp add: first_match_def)
next
  assume fm: "first_match sel doc p"
  then obtain b e where c: "context_at [] doc p = Some (b, e)" "matches sel b e"
    by (auto simp: first_match_def matches_at_def split: option.splits)
  show "querySelector sel doc = Some p"
  proof (cases "find_node (matches sel) [] doc")
    case None
    from find_node_None(1) [OF None c(1)] c(2) matches_element show ?thesis by blast
  next
    case (Some p')
    from find_node_matches(1) [OF Some] have "matches_at sel doc p'"
      by (auto simp: matches_at_def)
    with fm have 1: "precedes_or_eq p p'" by (simp add: first_match_def)
    from find_node_first(1) [OF Some c(1)] c(2) matches_element have 2: "precedes_or_eq p' p" by blast
    from precedes_or_eq_antisym [OF 1 2] Some show ?thesis by (simp add: querySelector_def)
  qed
qed

lemma querySelector_no_match: "querySelector sel doc = None \<longleftrightarrow> no_match sel doc"
proof
  assume "querySelector sel doc = None"
  then have f: "find_node (matches sel) [] doc = None" by (simp add: querySelector_def)
  show "no_match sel doc"
    unfolding no_match_def matches_at_def
    using find_node_None(1) [OF f] matches_element by (fastforce split: option.splits)
next
  assume nm: "no_match sel doc"
  show "querySelector sel doc = None"
  proof (cases "find_node (matches sel) [] doc")
    case None
    then show ?thesis by (simp add: querySelector_def)
  next
    case (Some p)
    from find_node_matches(1) [OF Some] have "matches_at sel doc p"
      by (auto simp: matches_at_def)
    with nm show ?thesis by (simp add: no_match_def)
  qed
qed

lemma showAlert_at_container:
  assumes "alert_container (document pg) = Some p"
  shows "\<exists>r t atts kids.
     node_at (document pg) p = Some (Element r t atts kids) \<and>
     showAlert parse_html type message permanent pg =
       Inr (pg\<lparr>document := insert_first p
                 (Element (next_ref pg) (str ''div'') [(str ''class'', alert_className type permanent)]
                    (parse_html (alert_innerHTML message)))
                 (document pg),
               next_ref := Suc (next_ref pg),
               timers := (if permanent then timers pg
                          else timers pg @ [(5000, Close_alert (next_ref pg))])\<rparr>)"
  using alert_container_sound [OF assms] assms
  by (auto simp: showAlert_def Let_def)

text \<open>
  C9, as amended. \<open>showAlert\<close> inserts a new \<open>div\<close> as the first child of the first element
  in document order that matches \<open>.container:first-of-type\<close> (it has the class \<open>container\<close>
  and no earlier sibling of its own type), or of the document body when no element matches
  that selector. For a type that is one class token, its classes are \<open>alert\<close>, \<open>alert-\<close>type,
  \<open>alert-dismissible\<close>, \<open>fade\<close> and \<open>show\<close>, and \<open>alert-permanent\<close> when marked
  permanent; its content is the message followed by the close button. When not permanent,
  one timer of 5000 ms that closes this alert is added; when permanent, no timer is added.
\<close>

theorem showAlert_inserts_alert:
  assumes "first_match Container_first_of_type (document pg) p \<or>
           no_match Container_first_of_type (document pg) \<and> document_body (document pg) = Some p"
  shows "\<exists>pg' r t atts kids alertDiv.
     showAlert parse_html type message permanent pg = Inr pg' \<and>
     node_at (document pg) p = Some (Element r t atts kids) \<and>
     node_at (document pg') p = Some (Element r t atts (alertDiv # kids)) \<and>
     alertDiv = Element (next_ref pg) (str ''div'') [(str ''class'', alert_className type permanent)]
                  (parse_html (alert_innerHTML message)) \<and>
     (no_whitespace type \<longrightarrow>
        class_tokens alertDiv =
          [str ''alert'', str ''alert-'' @ type, str ''alert-dismissible'', str ''fade'', str ''show''] @
          (if permanent then [str ''alert-permanent''] else [])) \<and>
     timers pg' = (if permanent then timers pg else timers pg @ [(5000, Close_alert (ref alertDiv))])"
proof -
  from assms have c: "alert_container (document pg) = Some p"
    by (auto simp: alert_container_def querySelector_first_match [symmetric]
          querySelector_no_match [symmetric])
  from showAlert_at_container [OF c, of parse_html type message permanent]
  obtain r t atts kids where
    n: "node_at (document pg) p = Some (Element r t atts kids)" and
    s: "showAlert parse_html type message permanent pg =
       Inr (pg\<lparr>document := insert_first p
                 (Element (next_ref pg) (str ''div'') [(str ''class'', alert_className type permanent)]
                    (parse_html (alert_innerHTML message)))
                 (document pg),
               next_ref := Suc (next_ref pg),
               timers := (if permanent then timers pg
                          else timers pg @ [(5000, Close_alert (next_ref pg))])\<rparr>)"
    by blast
  let ?alert = "Element (next_ref pg) (str ''div'') [(str ''class'', alert_className type permanent)]
                    (parse_html (alert_innerHTML message))"
  have tok: "no_whitespace type \<longrightarrow>
        class_tokens ?alert =
          [str ''alert'', str ''alert-'' @ type, str ''alert-dismissible'', str ''fade'', str ''show''] @
          (if permanent then [str ''alert-permanent''] else [])"
    using tokens_alert_className [of type permanent]
    by (simp add: class_tokens_def node_attribute_def)
  from n s tok node_at_insert_first [OF n, of ?alert] show ?thesis
    by (intro exI [of _ "pg\<lparr>document := insert_first p ?alert (document pg),
               next_ref := Suc (next_ref pg),
               timers := (if permanent then timers pg
                          else timers pg @ [(5000, Close_alert (next_ref pg))])\<rparr>"]
          exI [of _ r] exI [of _ t] exI [of _ atts] exI [of _ kids] exI [of _ ?alert])
       simp
qed

theorem showAlert_inserts_alert_witness:
  "(\<exists>pg' alertDiv.
     showAlert (\<lambda>s. [Text s]) (str ''danger'') (str ''bad'') False
       \<lparr>document = example_document, next_ref = 6, timers = []\<rparr> = Inr pg' \<and>
     node_at (document pg') [1, 0, 0] =
       Some (Element 4 (str ''div'') [(str ''class'', str ''container'')] [alertDiv]) \<and>
     class_tokens alertDiv =
       [str ''alert'', str ''alert-danger'', str ''alert-dismissible'', str ''fade'', str ''show''] \<and>
     timers pg' = [(5000, Close_alert 6)]) \<and>
   (\<exists>pg' alertDiv.
     showAlert (\<lambda>s. [Text s]) (str ''info'') (str ''kept'') True
       \<lparr>document = example_header_document, next_ref = 5, timers = [(1500, Reload_page)]\<rparr> = Inr pg' \<and>
     node_at (document pg') [1] =
       Some (Element 2 (str ''body'') []
         [alertDiv,
          Element 3 (str ''div'') [(str ''class'', str ''header'')] [],
          Element 4 (str ''div'') [(str ''class'', str ''container'')] []]) \<and>
     class_tokens alertDiv =
       [str ''alert'', str ''alert-info'', str ''alert-dismissible'', str ''fade'', str ''show'',
        str ''alert-permanent''] \<and>
     timers pg' = [(1500, Reload_page)])"
proof -
  have q: "querySelector Container_first_of_type example_document = Some [1, 0, 0]"
    by (simp add: example_document_def querySelector_def class_tokens_def node_attribute_def
          str_def is_ascii_whitespace_def)
  have n: "node_at example_document [1, 0, 0] =
      Some (Element 4 (str ''div'') [(str ''class'', str ''container'')] [])"
    by (simp add: example_document_def)
  have w: "no_whitespace (str ''danger'')" "no_whitespace (str ''info'')"
    by (simp_all add: no_whitespace_def str_def is_ascii_whitespace_def)
  have a: "str ''alert-'' @ str ''danger'' = str ''alert-danger''"
      "str ''alert-'' @ str ''info'' = str ''alert-info''"
    by (simp_all add: str_def)
  from q have fm: "first_match Container_first_of_type example_document [1, 0, 0]"
    by (simp add: querySelector_first_match)
  have 1: "\<exists>pg' alertDiv.
     showAlert (\<lambda>s. [Text s]) (str ''danger'') (str ''bad'') False
       \<lparr>document = example_document, next_ref = 6, timers = []\<rparr> = Inr pg' \<and>
     node_at (document pg') [1, 0, 0] =
       Some (Element 4 (str ''div'') [(str ''class'', str ''container'')] [alertDiv]) \<and>
     class_tokens alertDiv =
       [str ''alert'', str ''alert-danger'', str ''alert-dismissible'', str ''fade'', str ''show''] \<and>
     timers pg' = [(5000, Close_alert 6)]"
    using showAlert_inserts_alert [of "\<lparr>document = example_document, next_ref = 6, timers = []\<rparr>"
        "[1, 0, 0]" "\<lambda>s. [Text s]" "str ''danger''" "str ''bad''" False] fm n w a
    by auto
  have q2: "querySelector Container_first_of_type example_header_document = None"
    by (simp add: example_header_document_def querySelector_def class_tokens_def node_attribute_def
          str_def is_ascii_whitespace_def)
  have b2: "document_body example_header_document = Some [1]"
    by (simp add: example_header_document_def str_def)
  have n2: "node_at example_header_document [1] =
      Some (Element 2 (str ''body'') []
         [Element 3 (str ''div'') [(str ''class'', str ''header'')] [],
          Element 4 (str ''div'') [(str ''class'', str ''container'')] []])"
    by (simp add: example_header_document_def)
  from q2 have nm: "no_match Container_first_of_type example_header_document"
    by (simp add: querySelector_no_match)
  have 2: "\<exists>pg' alertDiv.
     showAlert (\<lambda>s. [Text s]) (str ''info'') (str ''kept'') True
       \<lparr>document = example_header_document, next_ref = 5, timers = [(1500, Reload_page)]\<rparr> = Inr pg' \<and>
     node_at (document pg') [1] =
       Some (Element 2 (str ''body'') []
         [alertDiv,
          Element 3 (str ''div'') [(str ''class'', str ''header'')] [],
          Element 4 (str ''div'') [(str ''class'', str ''container'')] []]) \<and>
     class_tokens alertDiv =
       [str ''alert'', str ''alert-info'', str ''alert-dismissible'', str ''fade'', str ''show'',
        str ''alert-permanent''] \<and>
     timers pg' = [(1500, Reload_page)]"
    using showAlert_inserts_alert [of
        "\<lparr>document = example_header_document, next_ref = 5, timers = [(1500, Reload_page)]\<rparr>"
        "[1]" "\<lambda>s. [Text s]" "str ''info''" "str ''kept''" True] nm b2 n2 w a
    by auto
  from 1 2 show ?thesis by blast
qed

text \<open>
  The claim as first stated fails on a page whose container is not the first element of
  its type among its siblings: the document has an element with the class \<open>container\<close>, and
  the alert becomes the first child of the body, not of that element.
\<close>

theorem showAlert_container_counterexample:
  "node_at example_header_document [1, 1] =
     Some (Element 4 (str ''div'') [(str ''class'', str ''container'')] []) \<and>
   class_tokens (Element 4 (str ''div'') [(str ''class'', str ''container'')] []) = [str ''container''] \<and>
   showAlert (\<lambda>s. [Text s]) (str ''danger'') (str ''bad'') False
       \<lparr>document = example_header_document, next_ref = 5, timers = []\<rparr> =
     Inr \<lparr>document =
            Element 0 (str ''html'') []
              [Element 1 (str ''head'') [] [],
               Element 2 (str ''body'') []
                 [Element 5 (str ''div'') [(str ''class'', alert_className (str ''danger'') False)]
                    [Text (alert_innerHTML (str ''bad''))],
                  Element 3 (str ''div'') [(str ''class'', str ''header'')] [],
                  Element 4 (str ''div'') [(str ''class'', str ''container'')] []]],
          next_ref = 6, timers = [(5000, Close_alert 5)]\<rparr>"
proof -
  have q: "querySelector Container_first_of_type example_header_document = None"
    by (simp add: example_header_document_def querySelector_def class_tokens_def node_attribute_def
          str_def is_ascii_whitespace_def)
  have b: "document_body example_header_document = Some [1]"
    by (simp add: example_header_document_def str_def)
  have c: "class_tokens (Element 4 (str ''div'') [(str ''class'', str ''container'')] []) = [str ''container'']"
    by (simp add: class_tokens_def node_attribute_def str_def is_ascii_whitespace_def)
  have s: "showAlert (\<lambda>s. [Text s]) (str ''danger'') (str ''bad'') False
       \<lparr>document = example_header_document, next_ref = 5, timers = []\<rparr> =
     Inr \<lparr>document = insert_first [1]
              (Element 5 (str ''div'') [(str ''class'', alert_className (str ''danger'') False)]
                    [Text (alert_innerHTML (str ''bad''))]) example_header_document,
          next_ref = 6, timers = [(5000, Close_alert 5)]\<rparr>"
    by (simp add: showAlert_def alert_container_def q b)
  show ?thesis
    unfolding s c by (simp add: example_header_document_def)
qed


subsection \<open>AJAX form submission\<close>

lemma showAlert_submitBtn:
  "showAlert parse_html type message permanent st = Inr st' \<Longrightarrow> submitBtn st' = submitBtn st"
  by (auto simp: showAlert_def Let_def split: option.splits if_splits)

lemma on_response_data_submitBtn:
  "on_response_data parse_html body st = Inr st' \<Longrightarrow> submitBtn st' = submitBtn st"
  by (auto simp: on_response_data_def Let_def form_reset_def
      split: response_json.splits if_splits sum.splits dest!: showAlert_submitBtn)

lemma on_request_error_submitBtn:
  "on_request_error parse_html r st = Inr st' \<Longrightarrow> submitBtn st' = submitBtn st"
  by (auto simp: on_request_error_def split: sum.splits dest!: showAlert_submitBtn)

lemma ajax_settled_submitBtn:
  "submitBtn (snd (ajax_settled parse_html originalText outcome st)) =
     (submitBtn st)\<lparr>innerHTML := originalText, disabled := False\<rparr>"
  by (auto simp: ajax_settled_def Let_def restore_submit_def
      split: request_outcome.splits sum.splits
      dest!: on_response_data_submitBtn on_request_error_submitBtn)

text \<open>
  C5. The submit listener saves the label of the submit control; whatever the outcome
  of the request (fulfilled with any body, rejected, or an exception in a callback), after
  the chain has run the control has the saved label again and is not disabled.
\<close>

theorem ajax_submit_cleanup:
  "ajax_submit_handler (Some btn) e =
     (Inr (innerHTML btn, btn\<lparr>innerHTML := spinner_label, disabled := True\<rparr>), preventDefault e) \<and>
   innerHTML (submitBtn (snd (ajax_settled parse_html (innerHTML btn) outcome st))) = innerHTML btn \<and>
   \<not> disabled (submitBtn (snd (ajax_settled parse_html (innerHTML btn) outcome st)))"
  by (simp add: ajax_submit_handler_def ajax_settled_submitBtn)

text \<open>
  C3. When the response body has a true success flag and a non-empty redirect URL, the
  handler assigns the URL to \<open>window.location.href\<close>; the document is unchanged, so no
  alert is shown, no timer is set and the chain is not rejected.
\<close>

theorem ajax_redirect:
  assumes "data_success d" "data_redirect d = Some url" "url \<noteq> []"
  shows "fst (ajax_settled parse_html originalText (Response_parsed (Object_value d)) st) = None \<and>
         navigation (snd (ajax_settled parse_html originalText (Response_parsed (Object_value d)) st)) = Some url \<and>
         document (snd (ajax_settled parse_html originalText (Response_parsed (Object_value d)) st)) = document st \<and>
         timers (snd (ajax_settled parse_html originalText (Response_parsed (Object_value d)) st)) = timers st"
  using assms by (simp add: ajax_settled_def on_response_data_def restore_submit_def)

lemma alert_container_spec:
  assumes "first_match Container_first_of_type doc p \<or>
           no_match Container_first_of_type doc \<and> document_body doc = Some p"
  shows "alert_container doc = Some p"
  using assms
  by (auto simp: alert_container_def querySelector_first_match [symmetric]
        querySelector_no_match [symmetric])

lemma tokens_alert_danger:
  "class_tokens (Element r (str ''div'') [(str ''class'', alert_className (str ''danger'') False)] kids) =
     [str ''alert'', str ''alert-danger'', str ''alert-dismissible'', str ''fade'', str ''show'']"
proof -
  have "no_whitespace (str ''danger'')"
    by (simp add: no_whitespace_def str_def is_ascii_whitespace_def)
  from tokens_alert_className [OF this, of False] show ?thesis
    by (simp add: class_tokens_def node_attribute_def) (simp add: str_def)
qed

lemma alert_innerHTML_contains: "\<exists>pre post. alert_innerHTML message = pre @ message @ post"
  unfolding alert_innerHTML_def by (metis append.assoc)

text \<open>
  C4. When the response body has a false success flag, an alert with the class
  \<open>alert-danger\<close> becomes the first child of the alert container; its content is parsed from
  markup that contains the message of the response, or \<open>An error occurred\<close> when the
  response has no message or an empty one.
\<close>

theorem ajax_failure_alert:
  assumes "\<not> data_success d"
    and "first_match Container_first_of_type (document st) p \<or>
         no_match Container_first_of_type (document st) \<and> document_body (document st) = Some p"
  shows "\<exists>st' r t atts kids alertDiv shown pre post.
     ajax_settled parse_html originalText (Response_parsed (Object_value d)) st = (None, st') \<and>
     node_at (document st) p = Some (Element r t atts kids) \<and>
     node_at (document st') p = Some (Element r t atts (alertDiv # kids)) \<and>
     class_tokens alertDiv =
       [str ''alert'', str ''alert-danger'', str ''alert-dismissible'', str ''fade'', str ''show''] \<and>
     childNodes alertDiv = parse_html (alert_innerHTML shown) \<and>
     alert_innerHTML shown = pre @ shown @ post \<and>
     shown = (case data_message d of
                None \<Rightarrow> str ''An error occurred''
              | Some m \<Rightarrow> if m = [] then str ''An error occurred'' else m)"
proof -
  let ?shown = "or_default (data_message d) ''An error occurred''"
  let ?alert = "Element (next_ref st) (str ''div'') [(str ''class'', alert_className (str ''danger'') False)]
                    (parse_html (alert_innerHTML ?shown))"
  have c: "alert_container (document st) = Some p"
    using assms(2) by (rule alert_container_spec)
  from showAlert_at_container [OF c, of parse_html "str ''danger''" ?shown False]
  obtain r t atts kids where
    n: "node_at (document st) p = Some (Element r t atts kids)" and
    s: "showAlert parse_html (str ''danger'') ?shown False st =
       Inr (st\<lparr>document := insert_first p ?alert (document st),
               next_ref := Suc (next_ref st),
               timers := timers st @ [(5000, Close_alert (next_ref st))]\<rparr>)"
    by auto
  let ?st' = "restore_submit originalText
       (st\<lparr>document := insert_first p ?alert (document st),
               next_ref := Suc (next_ref st),
               timers := timers st @ [(5000, Close_alert (next_ref st))]\<rparr>)"
  have settled: "ajax_settled parse_html originalText (Response_parsed (Object_value d)) st = (None, ?st')"
    using assms(1) s by (simp add: ajax_settled_def on_response_data_def)
  have doc: "node_at (document ?st') p = Some (Element r t atts (?alert # kids))"
    using node_at_insert_first [OF n, of ?alert] by (simp add: restore_submit_def)
  obtain pre post where pp: "alert_innerHTML ?shown = pre @ ?shown @ post"
    using alert_innerHTML_contains by blast
  have shown: "?shown = (case data_message d of
                None \<Rightarrow> str ''An error occurred''
              | Some m \<Rightarrow> if m = [] then str ''An error occurred'' else m)"
    by (simp add: or_default_def split: option.splits)
  have kids: "childNodes ?alert = parse_html (alert_innerHTML ?shown)"
    by simp
  show ?thesis
    using settled n doc tokens_alert_danger [of "next_ref st" "parse_html (alert_innerHTML ?shown)"]
      kids shown pp
    by blast
qed



lemma example_first_container:
  "first_match Container_first_of_type example_document [1, 0, 0]"
proof -
  have "querySelector Container_first_of_type example_document = Some [1, 0, 0]"
    by (simp add: example_document_def querySelector_def class_tokens_def node_attribute_def
          str_def is_ascii_whitespace_def)
  then show ?thesis by (simp add: querySelector_first_match)
qed

lemma example_container_node:
  "node_at example_document [1, 0, 0] =
      Some (Element 4 (str ''div'') [(str ''class'', str ''container'')] [])"
  by (simp add: example_document_def)

lemma example_ajax_document: "document example_ajax_page = example_document"
  by (simp add: example_ajax_page_def)

theorem ajax_redirect_witness:
  "navigation (snd (ajax_settled (\<lambda>s. [Text s]) (str ''Save'')
      (Response_parsed (Object_value
         \<lparr>data_success = True, data_message = None, data_redirect = Some (str ''/x'')\<rparr>))
      example_ajax_page)) = Some (str ''/x'') \<and>
   document (snd (ajax_settled (\<lambda>s. [Text s]) (str ''Save'')
      (Response_parsed (Object_value
         \<lparr>data_success = True, data_message = None, data_redirect = Some (str ''/x'')\<rparr>))
      example_ajax_page)) = example_document"
  using ajax_redirect [of "\<lparr>data_success = True, data_message = None, data_redirect = Some (str ''/x'')\<rparr>"
      "str ''/x''" "\<lambda>s. [Text s]" "str ''Save''" example_ajax_page]
    example_ajax_document
  by (simp add: str_def)

theorem ajax_failure_alert_witness:
  "\<exists>st' alertDiv.
     ajax_settled (\<lambda>s. [Text s]) (str ''Save'')
       (Response_parsed (Object_value
          \<lparr>data_success = False, data_message = Some (str ''bad''), data_redirect = None\<rparr>))
       example_ajax_page = (None, st') \<and>
     node_at (document st') [1, 0, 0] =
       Some (Element 4 (str ''div'') [(str ''class'', str ''container'')] [alertDiv]) \<and>
     class_tokens alertDiv =
       [str ''alert'', str ''alert-danger'', str ''alert-dismissible'', str ''fade'', str ''show''] \<and>
     childNodes alertDiv = [Text (alert_innerHTML (str ''bad''))]"
proof -
  have ne: "str ''bad'' \<noteq> []" by (simp add: str_def)
  note d = example_ajax_document
  show ?thesis
    using ajax_failure_alert [of
        "\<lparr>data_success = False, data_message = Some (str ''bad''), data_redirect = None\<rparr>"
        example_ajax_page "[1, 0, 0]" "\<lambda>s. [Text s]" "str ''Save''"]
      example_first_container example_container_node ne
    unfolding d by auto
qed

theorem ajax_submit_cleanup_witness:
  "innerHTML (submitBtn (snd (ajax_settled (\<lambda>s. [Text s]) (str ''Save'')
      (Request_rejected Network_failure) example_ajax_page))) = str ''Save'' \<and>
   \<not> disabled (submitBtn (snd (ajax_settled (\<lambda>s. [Text s]) (str ''Save'')
      (Request_rejected Network_failure) example_ajax_page)))"
  using ajax_submit_cleanup [of
      "\<lparr>attributes = [str ''type'' \<mapsto> str ''submit''], classList = [], textContent = [],
        innerHTML = str ''Save'', disabled = False\<rparr>"
      "\<lparr>defaultPrevented = False, propagationStopped = False\<rparr>"
      "\<lambda>s. [Text s]" "Request_rejected Network_failure" example_ajax_page]
  by simp

subsection \<open>Copy to clipboard\<close>

text \<open>
  C8. A click on a copy button whose \<open>data-clipboard-text\<close> is a non-empty text passes
  that text to the clipboard. When the write succeeds the clipboard holds the text, the
  label becomes the confirmation label with the class \<open>btn-success\<close>, and a timer of 2000 ms
  is set whose callback, whenever it runs, puts back the label the button had when the
  write succeeded and removes the class. When the write fails, only the console changes.
\<close>

theorem copy_to_clipboard:
  assumes "getAttribute (button st) ''data-clipboard-text'' = Some text" "text \<noteq> []"
  shows "copy_click_handler st = Inr text \<and>
     system_clipboard (clipboard_settled Write_fulfilled text st) = text \<and>
     innerHTML (button (clipboard_settled Write_fulfilled text st)) = copied_label \<and>
     copy_timers (clipboard_settled Write_fulfilled text st) =
       copy_timers st @ [(2000, innerHTML (button st))] \<and>
     innerHTML (button (copy_timer_fires (2000, innerHTML (button st)) later)) = innerHTML (button st) \<and>
     str ''btn-success'' \<in> set (classList (button (clipboard_settled Write_fulfilled text st))) \<and>
     str ''btn-success'' \<notin> set (classList (button (copy_timer_fires (2000, innerHTML (button st)) later))) \<and>
     clipboard_settled Write_rejected text st =
       st\<lparr>copy_console := copy_console st @ [str ''Failed to copy: '']\<rparr>"
  using assms
  by (simp add: copy_click_handler_def clipboard_settled_def on_copied_def on_copy_failed_def
        copy_timer_fires_def classList_add_mem classList_remove_mem)
     (simp add: classList_add_def classList_remove_def)

theorem copy_to_clipboard_witness:
  "copy_click_handler example_copy_page = Inr (str ''abc'') \<and>
   system_clipboard (clipboard_settled Write_fulfilled (str ''abc'') example_copy_page) = str ''abc'' \<and>
   innerHTML (button (clipboard_settled Write_fulfilled (str ''abc'') example_copy_page)) = copied_label \<and>
   copy_timers (clipboard_settled Write_fulfilled (str ''abc'') example_copy_page) = [(2000, str ''Copy'')] \<and>
   innerHTML (button (copy_timer_fires (2000, str ''Copy'')
      (clipboard_settled Write_fulfilled (str ''abc'') example_copy_page))) = str ''Copy''"
proof -
  have a: "getAttribute (button example_copy_page) ''data-clipboard-text'' = Some (str ''abc'')"
    by (simp add: example_copy_page_def getAttribute_def)
  have b: "str ''abc'' \<noteq> []" by (simp add: str_def)
  have c: "innerHTML (button example_copy_page) = str ''Copy''" "copy_timers example_copy_page = []"
    by (simp_all add: example_copy_page_def)
  show ?thesis
    using copy_to_clipboard [OF a b,
        of "clipboard_settled Write_fulfilled (str ''abc'') example_copy_page"]
    unfolding c by simp
qed

subsection \<open>Tab persistence\<close>

lemma restore_active_tab_plain:
  assumes "storage (str ''activeTab'') = Some s" "s \<noteq> []" "css_string_plain s"
  shows "restore_active_tab storage doc =
     (case querySelector (Anchor_with_href s) doc of None \<Rightarrow> No_tab_shown | Some p \<Rightarrow> Tab_shown p)"
  using assms by (simp add: restore_active_tab_def)

text \<open>
  C7, as amended. A click whose target is the tab trigger itself stores the trigger's
  \<open>href\<close> under the key \<open>activeTab\<close>. At page load, when the key holds a non-empty text
  without characters that are special in a CSS string and some anchor has that text as its
  \<open>href\<close>, the first such anchor in document order is shown as a tab; when no anchor has
  it, or the key is absent or holds the empty text, nothing is shown.
\<close>

theorem tab_persistence:
  "(is_tab_trigger tab \<and> node_attribute tab ''href'' = Some h \<longrightarrow>
      (\<exists>storage'. click_in_tab tab [] storage = Some storage' \<and>
                  storage' (str ''activeTab'') = Some h)) \<and>
   (storage (str ''activeTab'') = Some s \<and> s \<noteq> [] \<and> css_string_plain s \<longrightarrow>
      ((\<exists>q. matches_at (Anchor_with_href s) doc q) \<longrightarrow>
         (\<exists>p. restore_active_tab storage doc = Tab_shown p \<and>
              first_match (Anchor_with_href s) doc p)) \<and>
      (no_match (Anchor_with_href s) doc \<longrightarrow> restore_active_tab storage doc = No_tab_shown)) \<and>
   (storage (str ''activeTab'') = None \<or> storage (str ''activeTab'') = Some [] \<longrightarrow>
      restore_active_tab storage doc = No_tab_shown)"
proof (intro conjI impI)
  assume a: "is_tab_trigger tab \<and> node_attribute tab ''href'' = Some h"
  then obtain r t atts kids where "tab = Element r t atts kids"
    by (cases tab) (auto simp: is_tab_trigger_def)
  with a show "\<exists>storage'. click_in_tab tab [] storage = Some storage' \<and>
                  storage' (str ''activeTab'') = Some h"
    by (simp add: click_in_tab_def tab_click_handler_def setItem_def)
next
  assume a: "storage (str ''activeTab'') = Some s \<and> s \<noteq> [] \<and> css_string_plain s"
    and "\<exists>q. matches_at (Anchor_with_href s) doc q"
  then have "\<not> no_match (Anchor_with_href s) doc" by (simp add: no_match_def)
  then obtain p where q: "querySelector (Anchor_with_href s) doc = Some p"
    by (auto simp: querySelector_no_match [symmetric])
  then have "first_match (Anchor_with_href s) doc p" by (simp add: querySelector_first_match)
  with q a show "\<exists>p. restore_active_tab storage doc = Tab_shown p \<and>
              first_match (Anchor_with_href s) doc p"
    by (simp add: restore_active_tab_plain)
next
  assume a: "storage (str ''activeTab'') = Some s \<and> s \<noteq> [] \<and> css_string_plain s"
    and "no_match (Anchor_with_href s) doc"
  then have "querySelector (Anchor_with_href s) doc = None" by (simp add: querySelector_no_match)
  with a show "restore_active_tab storage doc = No_tab_shown"
    by (simp add: restore_active_tab_plain)
next
  assume "storage (str ''activeTab'') = None \<or> storage (str ''activeTab'') = Some []"
  then show "restore_active_tab storage doc = No_tab_shown"
    by (auto simp: restore_active_tab_def)
qed

lemma example_tab_trigger:
  "is_tab_trigger example_tab" "node_attribute example_tab ''href'' = Some (str ''#profile'')"
  by (simp_all add: is_tab_trigger_def example_tab_def node_attribute_def str_def)

theorem tab_persistence_witness:
  "(\<exists>storage'. click_in_tab example_tab [] Map.empty = Some storage' \<and>
       storage' (str ''activeTab'') = Some (str ''#profile'')) \<and>
   restore_active_tab [str ''activeTab'' \<mapsto> str ''#profile''] example_tab_document = Tab_shown [0, 0] \<and>
   restore_active_tab [str ''activeTab'' \<mapsto> str ''#home''] example_tab_document = No_tab_shown \<and>
   restore_active_tab Map.empty example_tab_document = No_tab_shown"
proof -
  have plain: "css_string_plain (str ''#profile'')" "css_string_plain (str ''#home'')"
    by (simp_all add: css_string_plain_def css_plain_unit_def str_def)
  have ne: "str ''#profile'' \<noteq> []" "str ''#home'' \<noteq> []"
    by (simp_all add: str_def)
  have q1: "querySelector (Anchor_with_href (str ''#profile'')) example_tab_document = Some [0, 0]"
    by (simp add: querySelector_def example_tab_document_def example_tab_def str_def)
  have q2: "querySelector (Anchor_with_href (str ''#home'')) example_tab_document = None"
    by (simp add: querySelector_def example_tab_document_def example_tab_def str_def)
  have m: "\<exists>q. matches_at (Anchor_with_href (str ''#profile'')) example_tab_document q"
    using q1 by (auto simp: querySelector_first_match first_match_def)
  have n: "no_match (Anchor_with_href (str ''#home'')) example_tab_document"
    using q2 by (simp add: querySelector_no_match)
  have click: "\<exists>storage'. click_in_tab example_tab [] Map.empty = Some storage' \<and>
       storage' (str ''activeTab'') = Some (str ''#profile'')"
    using tab_persistence [of example_tab "str ''#profile''" Map.empty "[]" example_tab_document]
      example_tab_trigger by simp
  have "\<exists>p. restore_active_tab [str ''activeTab'' \<mapsto> str ''#profile''] example_tab_document = Tab_shown p \<and>
              first_match (Anchor_with_href (str ''#profile'')) example_tab_document p"
    using tab_persistence [of example_tab "str ''#profile''" "[str ''activeTab'' \<mapsto> str ''#profile'']"
        "str ''#profile''" example_tab_document] plain ne m by simp
  then have shown: "restore_active_tab [str ''activeTab'' \<mapsto> str ''#profile''] example_tab_document = Tab_shown [0, 0]"
    using q1 by (auto simp: querySelector_first_match [symmetric])
  have none: "restore_active_tab [str ''activeTab'' \<mapsto> str ''#home''] example_tab_document = No_tab_shown"
    using tab_persistence [of example_tab "str ''#profile''" "[str ''activeTab'' \<mapsto> str ''#home'']"
        "str ''#home''" example_tab_document] plain ne n by simp
  have absent: "restore_active_tab Map.empty example_tab_document = No_tab_shown"
    using tab_persistence [of example_tab "str ''#profile''" Map.empty "[]" example_tab_document]
    by simp
  from click shown none absent show ?thesis by blast
qed

text \<open>
  The claim as first stated fails in two places. A click on the icon inside a trigger with
  the \<open>href\<close> \<open>#profile\<close> stores the text \<open>null\<close>. With the empty text stored and an anchor
  whose \<open>href\<close> is empty in the document, nothing is shown.
\<close>

theorem tab_persistence_counterexample:
  "click_in_tab example_tab [0] Map.empty = Some [str ''activeTab'' \<mapsto> str ''null''] \<and>
   node_attribute example_tab ''href'' = Some (str ''#profile'') \<and>
   matches_at (Anchor_with_href []) example_tab_document [0, 1] \<and>
   restore_active_tab [str ''activeTab'' \<mapsto> []] example_tab_document = No_tab_shown"
  by (simp add: click_in_tab_def tab_click_handler_def setItem_def is_tab_trigger_def
        example_tab_def example_tab_document_def node_attribute_def matches_at_def
        restore_active_tab_def str_def)

subsection \<open>Image preview\<close>

lemma start_reads_children [simp]:
  "preview_children (start_reads pid fs st) = preview_children st"
  by (induction fs arbitrary: st) simp_all

lemma start_reads_next_img [simp]: "next_img (start_reads pid fs st) = next_img st"
  by (induction fs arbitrary: st) simp_all

lemma start_reads_pending:
  "pending_reads (start_reads pid fs st) r =
     (if next_reader st \<le> r \<and> r < next_reader st + length fs
      then Some (pid, fs ! (r - next_reader st))
      else pending_reads st r)"
proof (induction fs arbitrary: st)
  case Nil
  show ?case by auto
next
  case (Cons f fs)
  show ?case
    by (auto simp: Cons.IH nth_Cons' Suc_diff_le)
qed

lemma thumbnail_facts [simp]:
  "is_thumbnail (thumbnail r url)" "thumbnail_source (thumbnail r url) = Some url"
  by (simp_all add: is_thumbnail_def thumbnail_source_def thumbnail_def node_attribute_def str_def)

lemma loads_append_ordered:
  assumes "distinct rs" "\<forall>r\<in>set rs. pending_reads st r = Some (pid, g r)"
    "preview_children st pid = Some kids"
  shows "preview_children (reads_settled (map Read_loaded rs) st) pid =
           Some (kids @ map (\<lambda>(k, r). thumbnail k (data_url (g r))) (enumerate (next_img st) rs)) \<and>
         (\<forall>r. pending_reads (reads_settled (map Read_loaded rs) st) r =
               (if r \<in> set rs then None else pending_reads st r))"
  using assms
proof (induction rs arbitrary: st kids)
  case Nil
  then show ?case by (simp add: reads_settled_def)
next
  case (Cons r rs)
  let ?st = "read_settled (Read_loaded r) st"
  from Cons.prems have p: "pending_reads st r = Some (pid, g r)" by simp
  with Cons.prems(3) have k: "preview_children ?st pid = Some (kids @ [thumbnail (next_img st) (data_url (g r))])"
    by simp
  have pend: "pending_reads ?st = (pending_reads st)(r := None)"
    using p by simp
  have img: "next_img ?st = Suc (next_img st)"
    using p by simp
  have d: "distinct rs" "r \<notin> set rs"
    using Cons.prems(1) by simp_all
  have "\<forall>r'\<in>set rs. pending_reads ?st r' = Some (pid, g r')"
    using Cons.prems(1,2) pend by auto
  from Cons.IH [OF d(1) this k]
  have ih: "preview_children (reads_settled (map Read_loaded rs) ?st) pid =
        Some ((kids @ [thumbnail (next_img st) (data_url (g r))]) @
              map (\<lambda>(k, r). thumbnail k (data_url (g r))) (enumerate (next_img ?st) rs))"
      "\<forall>r'. pending_reads (reads_settled (map Read_loaded rs) ?st) r' =
                 (if r' \<in> set rs then None else pending_reads ?st r')"
    by blast+
  have unfold: "reads_settled (map Read_loaded (r # rs)) st = reads_settled (map Read_loaded rs) ?st"
    by (simp add: reads_settled_def)
  show ?case
    unfolding unfold
    using ih(1) ih(2) pend d(2) unfolding img
    by auto
qed

lemma thumbnails_sources:
  "map thumbnail_source (map (\<lambda>(k, r). thumbnail k (data_url (g r))) (enumerate n rs)) =
   map (\<lambda>r. Some (data_url (g r))) rs"
  by (induction rs arbitrary: n) simp_all

lemma mset_reader_files:
  assumes "distinct rs" "set rs = {base ..< base + length fs}"
  shows "mset (map (\<lambda>r. Some (data_url (fs ! (r - base)))) rs) =
         mset (map (\<lambda>f. Some (data_url f)) fs)"
proof -
  have "mset rs = mset [base ..< base + length fs]"
    using assms set_eq_iff_mset_eq_distinct [of rs "[base ..< base + length fs]"]
    by (simp del: mset_upt)
  then have "mset (map (\<lambda>r. Some (data_url (fs ! (r - base)))) rs) =
             mset (map (\<lambda>r. Some (data_url (fs ! (r - base)))) [base ..< base + length fs])"
    by (metis mset_map)
  also have "map (\<lambda>r. Some (data_url (fs ! (r - base)))) [base ..< base + length fs] =
             map (\<lambda>f. Some (data_url f)) fs"
    by (rule nth_equalityI) (simp_all add: nth_append)
  finally show ?thesis .
qed

text \<open>
  C10, as amended. A change event on a file input whose \<open>data-preview\<close> names an existing
  element empties that element at once. If no read started earlier is still in flight,
  and every read of the selection ends with success, in any order, then afterwards the
  children of the element are exactly the thumbnails of the selected files, one per file,
  in the order in which the reads ended, and no read is in flight.
\<close>

theorem preview_one_thumbnail_per_file:
  assumes "data_preview this = Some pid" "pid \<noteq> []" "preview_children st pid = Some old"
    and "pending_reads st = Map.empty"
    and "distinct rs" "set rs = {next_reader st ..< next_reader st + length (files this)}"
  shows "preview_children (file_input_change this st) pid = Some [] \<and>
     (\<exists>kids. preview_children (reads_settled (map Read_loaded rs) (file_input_change this st)) pid =
               Some kids \<and>
             kids = map (\<lambda>(k, r). thumbnail k (data_url (files this ! (r - next_reader st))))
                      (enumerate (next_img st) rs) \<and>
             map thumbnail_source kids =
               map (\<lambda>r. Some (data_url (files this ! (r - next_reader st)))) rs \<and>
             list_all is_thumbnail kids \<and>
             length kids = length (files this) \<and>
             mset (map thumbnail_source kids) = mset (map (\<lambda>f. Some (data_url f)) (files this))) \<and>
     pending_reads (reads_settled (map Read_loaded rs) (file_input_change this st)) = Map.empty"
proof -
  let ?st0 = "st\<lparr>preview_children := (preview_children st)(pid \<mapsto> [])\<rparr>"
  let ?st1 = "file_input_change this st"
  let ?g = "\<lambda>r. files this ! (r - next_reader st)"
  let ?kids = "map (\<lambda>(k, r). thumbnail k (data_url (?g r))) (enumerate (next_img st) rs)"
  have st1: "?st1 = start_reads pid (files this) ?st0"
    using assms(1-3) by (simp add: file_input_change_def)
  have cleared: "preview_children ?st1 pid = Some []"
    by (simp add: st1)
  have img: "next_img ?st1 = next_img st"
    by (simp add: st1)
  have pend: "pending_reads ?st1 r =
      (if next_reader st \<le> r \<and> r < next_reader st + length (files this)
       then Some (pid, ?g r) else None)" for r
    using assms(4) by (simp add: st1 start_reads_pending)
  have "\<forall>r\<in>set rs. pending_reads ?st1 r = Some (pid, ?g r)"
    using assms(6) by (simp add: pend)
  from loads_append_ordered [OF assms(5) this cleared]
  have kids: "preview_children (reads_settled (map Read_loaded rs) ?st1) pid = Some ?kids"
    and gone: "\<forall>r. pending_reads (reads_settled (map Read_loaded rs) ?st1) r =
                 (if r \<in> set rs then None else pending_reads ?st1 r)"
    unfolding img by simp_all
  have src: "map thumbnail_source ?kids = map (\<lambda>r. Some (data_url (?g r))) rs"
    by (rule thumbnails_sources)
  have thumbs: "list_all is_thumbnail ?kids"
    by (simp add: list_all_iff case_prod_unfold)
  have "length rs = length (files this)"
    using assms(5,6) distinct_card [of rs] by simp
  then have l: "length ?kids = length (files this)" by simp
  have m: "mset (map thumbnail_source ?kids) = mset (map (\<lambda>f. Some (data_url f)) (files this))"
    unfolding src using assms(5,6) by (rule mset_reader_files)
  have e: "pending_reads (reads_settled (map Read_loaded rs) ?st1) = Map.empty"
  proof
    fix r
    show "pending_reads (reads_settled (map Read_loaded rs) ?st1) r = None"
      using gone pend [of r] assms(6) by auto
  qed
  from cleared kids src thumbs l m e show ?thesis by blast
qed

theorem preview_one_thumbnail_per_file_witness:
  "preview_children (reads_settled (map Read_loaded [1, 0])
      (file_input_change (selection [photo_a, photo_b]) example_preview_page))
    (str ''preview'') =
     Some [thumbnail 0 (data_url photo_b), thumbnail 1 (data_url photo_a)]"
proof -
  have a: "data_preview (selection [photo_a, photo_b]) = Some (str ''preview'')"
      "str ''preview'' \<noteq> []"
      "preview_children example_preview_page (str ''preview'') = Some [Text (str ''No image'')]"
      "pending_reads example_preview_page = Map.empty"
    by (simp_all add: selection_def example_preview_page_def str_def)
  have b: "distinct [1, 0 :: nat]"
      "set [1, 0 :: nat] = {next_reader example_preview_page ..<
          next_reader example_preview_page + length (files (selection [photo_a, photo_b]))}"
    by (auto simp: selection_def example_preview_page_def)
  have f: "files (selection [photo_a, photo_b]) = [photo_a, photo_b]"
      "next_reader example_preview_page = 0" "next_img example_preview_page = 0"
    by (simp_all add: selection_def example_preview_page_def)
  show ?thesis
    using preview_one_thumbnail_per_file [OF a b] unfolding f by (simp add: enumerate_eq_zip)
qed

text \<open>
  The claim as first stated fails when a read of an earlier selection ends after the next
  change event: select \<open>a.png\<close>, then \<open>b.png\<close> before the first read has ended. After both
  reads have ended the container holds the thumbnail of \<open>a.png\<close> and that of \<open>b.png\<close>.
\<close>

theorem preview_stale_read_counterexample:
  "preview_children
     (reads_settled [Read_loaded 0, Read_loaded 1]
        (file_input_change (selection [photo_b])
           (file_input_change (selection [photo_a]) example_preview_page)))
     (str ''preview'') =
     Some [thumbnail 0 (data_url photo_a), thumbnail 1 (data_url photo_b)] \<and>
   pending_reads
     (reads_settled [Read_loaded 0, Read_loaded 1]
        (file_input_change (selection [photo_b])
           (file_input_change (selection [photo_a]) example_preview_page))) 0 = None \<and>
   pending_reads
     (reads_settled [Read_loaded 0, Read_loaded 1]
        (file_input_change (selection [photo_b])
           (file_input_change (selection [photo_a]) example_preview_page))) 1 = None"
  by (simp add: reads_settled_def file_input_change_def selection_def example_preview_page_def
        str_def Let_def)

end
